theory Spec2Isabelle
  imports Complex_Main "HOL-Library.AList"
begin

section \<open>Errors\<close>

text \<open>
  The exceptions the program can raise become values.  A computation that may raise
  has the type \<open>error + 'a\<close>, with \<open>Inl\<close> for the exception.
\<close>

datatype error = KeyError string | ValueError | IndexError

definition ebind :: "error + 'a \<Rightarrow> ('a \<Rightarrow> error + 'b) \<Rightarrow> error + 'b" where
  "ebind m f = (case m of Inl e \<Rightarrow> Inl e | Inr x \<Rightarrow> f x)"

section \<open>Calendar days\<close>

text \<open>
  A \<open>datetime.date\<close> is represented by its proleptic Gregorian ordinal
  (\<open>date.toordinal()\<close>: 0001-01-01 is day 1).  Comparison of dates is comparison of
  ordinals, \<open>(end - start).days\<close> is their difference and \<open>start + timedelta(n)\<close>
  adds \<open>n\<close>.  The functions below follow the reference implementation of the
  \<open>datetime\<close> module.
\<close>

type_synonym date = int

definition is_leap :: "int \<Rightarrow> bool" where
  "is_leap year \<longleftrightarrow> year mod 4 = 0 \<and> (year mod 100 \<noteq> 0 \<or> year mod 400 = 0)"

definition days_before_year :: "int \<Rightarrow> int" where
  "days_before_year year = (let y = year - 1 in y * 365 + y div 4 - y div 100 + y div 400)"

definition DAYS_IN_MONTH :: "int list" where
  "DAYS_IN_MONTH = [-1, 31, 28, 31, 30, 31, 30, 31, 31, 30, 31, 30, 31]"

definition DAYS_BEFORE_MONTH :: "int list" where
  "DAYS_BEFORE_MONTH = [-1, 0, 31, 59, 90, 120, 151, 181, 212, 243, 273, 304, 334]"

definition days_in_month :: "int \<Rightarrow> int \<Rightarrow> int" where
  "days_in_month year month =
     (if month = 2 \<and> is_leap year then 29 else DAYS_IN_MONTH ! nat month)"

definition days_before_month :: "int \<Rightarrow> int \<Rightarrow> int" where
  "days_before_month year month =
     DAYS_BEFORE_MONTH ! nat month + (if month > 2 \<and> is_leap year then 1 else 0)"

definition ymd2ord :: "int \<Rightarrow> int \<Rightarrow> int \<Rightarrow> date" where
  "ymd2ord year month day = days_before_year year + days_before_month year month + day"

definition ord2ymd :: "date \<Rightarrow> int \<times> int \<times> int" where
  "ord2ymd ordinal =
     (let n = ordinal - 1;
          n400 = n div 146097; n = n mod 146097;
          year = n400 * 400 + 1;
          n100 = n div 36524; n = n mod 36524;
          n4 = n div 1461; n = n mod 1461;
          n1 = n div 365; n = n mod 365;
          year = year + n100 * 100 + n4 * 4 + n1
      in if n1 = 4 \<or> n100 = 4 then (year - 1, 12, 31)
         else
           let leapyear = (n1 = 3 \<and> (n4 \<noteq> 24 \<or> n100 = 3));
               month = (n + 50) div 32;
               preceding = DAYS_BEFORE_MONTH ! nat month
                           + (if month > 2 \<and> leapyear then 1 else 0)
           in if preceding > n
              then let month = month - 1;
                       preceding = preceding - (DAYS_IN_MONTH ! nat month
                                     + (if month = 2 \<and> leapyear then 1 else 0))
                   in (year, month, n - preceding + 1)
              else (year, month, n - preceding + 1))"

text \<open>
  The constructor \<open>datetime(year, month, day, ...)\<close> raises \<open>ValueError\<close> outside
  \<open>MINYEAR..MAXYEAR\<close>, for a month outside 1..12 and for a day the month does not have.
\<close>

definition new_date :: "int \<Rightarrow> int \<Rightarrow> int \<Rightarrow> error + date" where
  "new_date year month day =
     (if 1 \<le> year \<and> year \<le> 9999 \<and> 1 \<le> month \<and> month \<le> 12
         \<and> 1 \<le> day \<and> day \<le> days_in_month year month
      then Inr (ymd2ord year month day) else Inl ValueError)"

section \<open>Parsing and formatting\<close>

text \<open>
  Strings are ASCII.  \<open>strptime\<close> turns the format into a regular expression, matches it
  at the start of the text and raises \<open>ValueError\<close> when it does not match or when text
  remains.  The fields below are the alternatives of that expression:
  \<^verbatim>\<open>%d\<close> is \<^verbatim>\<open>3[0-1]|[1-2]\d|0[1-9]|[1-9]| [1-9]\<close>,
  \<^verbatim>\<open>%m\<close> is \<^verbatim>\<open>1[0-2]|0[1-9]|[1-9]\<close>, \<^verbatim>\<open>%Y\<close> is \<^verbatim>\<open>\d\d\d\d\<close>,
  \<^verbatim>\<open>%H\<close> is \<^verbatim>\<open>2[0-3]|[0-1]\d|\d\<close>, \<^verbatim>\<open>%M\<close> is \<^verbatim>\<open>[0-5]\d|\d\<close>,
  \<^verbatim>\<open>%S\<close> is \<^verbatim>\<open>6[0-1]|[0-5]\d|\d\<close>, and a blank of the format is \<^verbatim>\<open>\s+\<close>.
  No field can hold the separator that follows it, so a field is the text before the
  first occurrence of that separator.
\<close>

definition is_digit :: "char \<Rightarrow> bool" where
  "is_digit c \<longleftrightarrow> c \<in> set ''0123456789''"

definition is_space :: "char \<Rightarrow> bool" where
  "is_space c \<longleftrightarrow> (of_char c :: nat) \<in> {9, 10, 11, 12, 13, 28, 29, 30, 31, 32}"

definition digit_val :: "char \<Rightarrow> int" where
  "digit_val c = int (of_char c) - 48"

definition int_of_digits :: "string \<Rightarrow> int" where
  "int_of_digits s = foldl (\<lambda>a c. 10 * a + digit_val c) 0 s"

definition split_first :: "char \<Rightarrow> string \<Rightarrow> (string \<times> string) option" where
  "split_first sep s =
     (if sep \<in> set s
      then Some (takeWhile (\<lambda>c. c \<noteq> sep) s, tl (dropWhile (\<lambda>c. c \<noteq> sep) s))
      else None)"

fun field_d :: "string \<Rightarrow> int option" where
  "field_d [a] = (if a \<in> set ''123456789'' then Some (digit_val a) else None)"
| "field_d [a, b] =
     (if a = CHR ''3'' \<and> b \<in> set ''01'' \<or> a \<in> set ''12'' \<and> is_digit b
         \<or> a = CHR ''0'' \<and> b \<in> set ''123456789''
      then Some (int_of_digits [a, b])
      else if a = CHR '' '' \<and> b \<in> set ''123456789'' then Some (digit_val b)
      else None)"
| "field_d _ = None"

fun field_m :: "string \<Rightarrow> int option" where
  "field_m [a] = (if a \<in> set ''123456789'' then Some (digit_val a) else None)"
| "field_m [a, b] =
     (if a = CHR ''1'' \<and> b \<in> set ''012'' \<or> a = CHR ''0'' \<and> b \<in> set ''123456789''
      then Some (int_of_digits [a, b]) else None)"
| "field_m _ = None"

definition field_Y :: "string \<Rightarrow> int option" where
  "field_Y s = (if length s = 4 \<and> list_all is_digit s then Some (int_of_digits s) else None)"

fun field_H :: "string \<Rightarrow> int option" where
  "field_H [a] = (if is_digit a then Some (digit_val a) else None)"
| "field_H [a, b] =
     (if a = CHR ''2'' \<and> b \<in> set ''0123'' \<or> a \<in> set ''01'' \<and> is_digit b
      then Some (int_of_digits [a, b]) else None)"
| "field_H _ = None"

fun field_M :: "string \<Rightarrow> int option" where
  "field_M [a] = (if is_digit a then Some (digit_val a) else None)"
| "field_M [a, b] =
     (if a \<in> set ''012345'' \<and> is_digit b then Some (int_of_digits [a, b]) else None)"
| "field_M _ = None"

text \<open>
  \<^verbatim>\<open>%S\<close> also matches 60 and 61, which the \<open>datetime\<close> constructor then refuses: the
  outcome is \<open>ValueError\<close> either way.
\<close>

fun field_S :: "string \<Rightarrow> int option" where
  "field_S [a] = (if is_digit a then Some (digit_val a) else None)"
| "field_S [a, b] =
     (if a \<in> set ''012345'' \<and> is_digit b then Some (int_of_digits [a, b]) else None)"
| "field_S _ = None"

text \<open>\<open>datetime.strptime(s, "%d-%m-%Y")\<close>; the time of the result is midnight.\<close>

definition strptime_date :: "string \<Rightarrow> error + date" where
  "strptime_date s =
     (case split_first CHR ''-'' s of
        None \<Rightarrow> Inl ValueError
      | Some (d, rest) \<Rightarrow>
          (case split_first CHR ''-'' rest of
             None \<Rightarrow> Inl ValueError
           | Some (m, y) \<Rightarrow>
               (case (field_d d, field_m m, field_Y y) of
                  (Some day, Some month, Some year) \<Rightarrow> new_date year month day
                | _ \<Rightarrow> Inl ValueError)))"

text \<open>
  \<open>datetime.strptime(s, "%d.%m.%Y %H:%M:%S")\<close>: the day and the time of day
  (hour, minute, second).
\<close>

definition strptime_datetime :: "string \<Rightarrow> error + date \<times> int \<times> int \<times> int" where
  "strptime_datetime s =
     (case split_first CHR ''.'' s of
        None \<Rightarrow> Inl ValueError
      | Some (d, rest) \<Rightarrow>
          (case split_first CHR ''.'' rest of
             None \<Rightarrow> Inl ValueError
           | Some (m, rest) \<Rightarrow>
               (let y = take 4 rest; blank = takeWhile is_space (drop 4 rest);
                    rest = dropWhile is_space (drop 4 rest)
                in if blank = [] then Inl ValueError
                   else
                     (case split_first CHR '':'' rest of
                        None \<Rightarrow> Inl ValueError
                      | Some (hh, rest) \<Rightarrow>
                          (case split_first CHR '':'' rest of
                             None \<Rightarrow> Inl ValueError
                           | Some (mm, ss) \<Rightarrow>
                               (case (field_d d, field_m m, field_Y y) of
                                  (Some day, Some month, Some year) \<Rightarrow>
                                    (case (field_H hh, field_M mm, field_S ss) of
                                       (Some hour, Some minute, Some second) \<Rightarrow>
                                         ebind (new_date year month day)
                                           (\<lambda>date. Inr (date, hour, minute, second))
                                     | _ \<Rightarrow> Inl ValueError)
                                | _ \<Rightarrow> Inl ValueError))))))"

text \<open>\<open>date.strftime("%Y-%m-%d")\<close>, the year on four digits.\<close>

definition digit_char :: "int \<Rightarrow> char" where
  "digit_char n = char_of (48 + n)"

definition two_digits :: "int \<Rightarrow> string" where
  "two_digits n = [digit_char (n div 10 mod 10), digit_char (n mod 10)]"

definition four_digits :: "int \<Rightarrow> string" where
  "four_digits n = two_digits (n div 100) @ two_digits n"

definition strftime :: "date \<Rightarrow> string" where
  "strftime d =
     (case ord2ymd d of (year, month, day) \<Rightarrow>
        four_digits year @ ''-'' @ two_digits month @ ''-'' @ two_digits day)"

section \<open>Transactions and daily totals\<close>

text \<open>
  A transaction is the dictionary the bank's API sends: keys and values are strings.
  Subscripting with a missing key raises \<open>KeyError\<close>.
\<close>

type_synonym transaction = "string \<rightharpoonup> string"

definition getitem :: "transaction \<Rightarrow> string \<Rightarrow> error + string" where
  "getitem t k = (case t k of None \<Rightarrow> Inl (KeyError k) | Some v \<Rightarrow> Inr v)"

text \<open>
  The amounts are Python floats.  Their type \<open>'f\<close> is left open: any type with a
  \<open>0\<close> and a \<open>+\<close>, of which no law is assumed, so that nothing proved below
  relies on an addition that is exact, associative or commutative.  \<open>0\<close> is the
  \<open>0\<close> the accumulators start from, and \<open>float\<close>, which reads a text as a number or
  raises \<open>ValueError\<close>, is a parameter of the functions that call it.
\<close>

record 'f totals =
  money_in :: 'f
  money_out :: 'f
  money_in_UAH :: 'f
  money_out_UAH :: 'f

definition zero_totals :: "'f::zero totals" where
  "zero_totals = \<lparr>money_in = 0, money_out = 0, money_in_UAH = 0, money_out_UAH = 0\<rparr>"

text \<open>One record of the result: \<open>{"date": ..., **totals}\<close>.\<close>

record 'f daily_amount =
  date :: string
  money_in :: 'f
  money_out :: 'f
  money_in_UAH :: 'f
  money_out_UAH :: 'f

text \<open>
  \<open>daily_totals\<close> is a \<open>defaultdict\<close>; it is an association list in insertion
  order, with one entry for each key.  Reading \<open>daily_totals[date]\<close> gives the stored
  record or a fresh zero record.
\<close>

type_synonym 'f daily_totals = "(date \<times> 'f totals) list"

definition default_get :: "'f::zero daily_totals \<Rightarrow> date \<Rightarrow> 'f totals" where
  "default_get daily_totals d =
     (case map_of daily_totals d of None \<Rightarrow> zero_totals | Some r \<Rightarrow> r)"

text \<open>
  The reads of the first loop's body, in the order of the source: the day of the
  timestamp (its time of day dropped by \<open>.date()\<close>), the two amounts and the
  direction code.
\<close>

definition read_transaction ::
  "(string \<Rightarrow> error + 'f) \<Rightarrow> transaction \<Rightarrow> error + date \<times> 'f \<times> 'f \<times> string" where
  "read_transaction float transaction =
     ebind (getitem transaction ''DATE_TIME_DAT_OD_TIM_P'') (\<lambda>s.
     ebind (strptime_datetime s) (\<lambda>dt.
     ebind (getitem transaction ''SUM'') (\<lambda>s1.
     ebind (float s1) (\<lambda>amount.
     ebind (getitem transaction ''SUM_E'') (\<lambda>s2.
     ebind (float s2) (\<lambda>amount_uah.
     ebind (getitem transaction ''TRANTYPE'') (\<lambda>trantype.
     Inr (fst dt, amount, amount_uah, trantype))))))))"

definition add_amounts :: "'f::plus \<times> 'f \<times> string \<Rightarrow> 'f totals \<Rightarrow> 'f totals" where
  "add_amounts x r =
     (case x of (amount, amount_uah, trantype) \<Rightarrow>
        if trantype = ''C''
        then r\<lparr>totals.money_in := totals.money_in r + amount,
               totals.money_in_UAH := totals.money_in_UAH r + amount_uah\<rparr>
        else r\<lparr>totals.money_out := totals.money_out r + amount,
               totals.money_out_UAH := totals.money_out_UAH r + amount_uah\<rparr>)"

text \<open>The first loop: \<open>for transaction in transactions\<close>.\<close>

fun accumulate ::
  "(string \<Rightarrow> error + 'f::{zero,plus}) \<Rightarrow> transaction list \<Rightarrow> 'f daily_totals
     \<Rightarrow> error + 'f daily_totals" where
  "accumulate float [] daily_totals = Inr daily_totals"
| "accumulate float (transaction # rest) daily_totals =
     ebind (read_transaction float transaction) (\<lambda>(d, x).
       accumulate float rest
         (AList.update d (add_amounts x (default_get daily_totals d)) daily_totals))"

text \<open>The second loop: every day of the range that has no entry gets a zero record.\<close>

fun fill_gaps :: "date list \<Rightarrow> 'f::zero daily_totals \<Rightarrow> 'f daily_totals" where
  "fill_gaps [] daily_totals = daily_totals"
| "fill_gaps (day # days) daily_totals =
     fill_gaps days
       (if day \<notin> fst ` set daily_totals then AList.update day zero_totals daily_totals
        else daily_totals)"

text \<open>
  \<open>end_date\<close> is optional and an empty text counts as absent; then the range ends
  \<open>now\<close>, the day the clock shows (its time of day does not change \<open>.days\<close>, as
  \<open>start\<close> is a midnight).  \<open>range(day_count)\<close> is the list \<open>[0..day_count - 1]\<close>,
  empty when \<open>day_count\<close> is not positive; \<open>start + timedelta(n)\<close> stays at or before
  \<open>end\<close>, so it cannot leave the calendar.
\<close>

definition end_of_range :: "date \<Rightarrow> string option \<Rightarrow> error + date" where
  "end_of_range now end_date =
     (case end_date of
        None \<Rightarrow> Inr now
      | Some s \<Rightarrow> if s = [] then Inr now else strptime_date s)"

definition calculate_daily_amounts ::
  "(string \<Rightarrow> error + 'f::{zero,plus}) \<Rightarrow> date \<Rightarrow> transaction list \<Rightarrow> string \<Rightarrow> string option
     \<Rightarrow> error + 'f daily_amount list" where
  "calculate_daily_amounts float now transactions start_date end_date =
     ebind (strptime_date start_date) (\<lambda>start.
     ebind (end_of_range now end_date) (\<lambda>end.
       let day_count = (end - start) + 1 in
       ebind (accumulate float transactions []) (\<lambda>daily_totals.
         let daily_totals = fill_gaps (map (\<lambda>n. start + n) [0..day_count - 1]) daily_totals;
             sorted_totals = sort_key fst daily_totals
         in Inr (map (\<lambda>(d, r). \<lparr>date = strftime d,
                                 money_in = totals.money_in r,
                                 money_out = totals.money_out r,
                                 money_in_UAH = totals.money_in_UAH r,
                                 money_out_UAH = totals.money_out_UAH r\<rparr>) sorted_totals))))"

section \<open>The bank's API and the world around the program\<close>

text \<open>
  \<open>requests.get\<close> sends a request and \<open>response.json()\<close> is the dictionary of the
  answer; the program reads its keys \<open>status\<close>, \<open>transactions\<close>, \<open>exist_next_page\<close>
  and \<open>next_page_id\<close>.  A request is the URL the f-string builds and the headers.
  The answer is taken to be a dictionary with these four keys; a connection that
  fails and a body that is not JSON are not modelled.
\<close>

record request =
  url :: string
  headers :: "(string \<times> string) list"

record json_data =
  status :: string
  transactions :: "transaction list"
  exist_next_page :: bool
  next_page_id :: string

text \<open>
  The log holds the records of \<open>logging.error\<close>, \<open>logging.info\<close> and
  \<open>logging.warning\<close>, oldest first: the level and what the message reports.
\<close>

datatype level = INFO | WARNING | ERROR

datatype message =
    Failed_to_fetch json_data
  | Fetched_so_far nat
  | Processing_account string
  | No_transactions_found string
  | Report_generated string string

text \<open>
  A report file holds the daily amounts, as \<open>csv.DictWriter\<close> (with its header) or
  \<open>json.dump\<close> writes them; \<open>open(file_name, "w")\<close> alone leaves an empty file.
\<close>

datatype 'f report_file =
    Empty_file
  | Csv_file "string list" "'f daily_amount list"
  | Json_file "'f daily_amount list"

text \<open>
  The world: the state of the server and the network (of any type \<open>'w\<close>), the exchanges
  made so far (each request with the answer it got), the log and the files written.
  The transport answers a request in a state of the server and gives the next state.
\<close>

record ('w, 'f) world =
  net :: 'w
  exchanges :: "(request \<times> json_data) list"
  logged :: "(level \<times> message) list"
  files :: "string \<rightharpoonup> 'f report_file"

type_synonym 'w transport = "request \<Rightarrow> 'w \<Rightarrow> json_data \<times> 'w"

definition PRIVATBANK_TX_STATEMENTS_URL :: string where
  "PRIVATBANK_TX_STATEMENTS_URL = ''https://acp.privatbank.ua/api/statements/transactions''"

definition logging :: "level \<Rightarrow> message \<Rightarrow> ('w, 'f) world \<Rightarrow> ('w, 'f) world" where
  "logging l m env = env\<lparr>logged := logged env @ [(l, m)]\<rparr>"

definition requests_get :: "'w transport \<Rightarrow> request \<Rightarrow> ('w, 'f) world \<Rightarrow> json_data \<times> ('w, 'f) world" where
  "requests_get get req env =
     (case get req (net env) of
        (data, w) \<Rightarrow> (data, env\<lparr>net := w, exchanges := exchanges env @ [(req, data)]\<rparr>))"

section \<open>Fetching the transactions\<close>

text \<open>
  The comprehension \<open>[t for t in data["transactions"] if t["PR_PR"] == "r"]\<close>; a
  transaction without the key raises \<open>KeyError\<close>.
\<close>

fun confirmed :: "transaction list \<Rightarrow> error + transaction list" where
  "confirmed [] = Inr []"
| "confirmed (t # ts) =
     ebind (getitem t ''PR_PR'') (\<lambda>flag.
     ebind (confirmed ts) (\<lambda>rest. Inr (if flag = ''r'' then t # rest else rest)))"

text \<open>
  The request of one turn of the loop: \<open>follow_id\<close> is \<open>None\<close> before the first
  page and is written as the empty text then.
\<close>

definition page_request :: "string \<Rightarrow> string \<Rightarrow> string \<Rightarrow> string \<Rightarrow> string option \<Rightarrow> request" where
  "page_request account_number start_date end_date token follow_id =
     \<lparr>url = PRIVATBANK_TX_STATEMENTS_URL @ ''?acc='' @ account_number
              @ ''&startDate='' @ start_date @ ''&endDate='' @ end_date
              @ ''&followId='' @ (case follow_id of None \<Rightarrow> [] | Some f \<Rightarrow> f),
      headers = [(''Content-Type'', ''application/json;utf8''), (''token'', token)]\<rparr>"

text \<open>
  The body of \<open>while True\<close>, on the loop's variables \<open>follow_id\<close> and
  \<open>transactions\<close> (here \<open>so_far\<close>).  It ends the loop (\<open>break\<close>, or an exception
  leaving the function) or goes around again with the next page's id.
\<close>

datatype ('w, 'f) outcome =
    Return "error + transaction list" "('w, 'f) world"
  | Again string "transaction list" "('w, 'f) world"

definition page ::
  "'w transport \<Rightarrow> string \<Rightarrow> string \<Rightarrow> string \<Rightarrow> string \<Rightarrow> string option
     \<Rightarrow> transaction list \<Rightarrow> ('w, 'f) world \<Rightarrow> ('w, 'f) outcome" where
  "page get account_number start_date end_date token follow_id so_far env =
     (case requests_get get (page_request account_number start_date end_date token follow_id) env of
        (data, env) \<Rightarrow>
          if status data \<noteq> ''SUCCESS''
          then Return (Inr so_far) (logging ERROR (Failed_to_fetch data) env)
          else
            (case confirmed (transactions data) of
               Inl e \<Rightarrow> Return (Inl e) env
             | Inr new \<Rightarrow>
                 let so_far = so_far @ new;
                     env = logging INFO (Fetched_so_far (length so_far)) env
                 in if \<not> exist_next_page data then Return (Inr so_far) env
                    else Again (next_page_id data) so_far env))"

text \<open>
  The loop.  Nothing bounds the number of pages: when the server never lets the loop
  end, the function does not return, and its value is \<open>None\<close>.
\<close>

partial_function (option) pages ::
  "'w transport \<Rightarrow> string \<Rightarrow> string \<Rightarrow> string \<Rightarrow> string \<Rightarrow> string option
     \<Rightarrow> transaction list \<Rightarrow> ('w, 'f) world \<Rightarrow> ((error + transaction list) \<times> ('w, 'f) world) option" where
  "pages get account_number start_date end_date token follow_id so_far env =
     (case page get account_number start_date end_date token follow_id so_far env of
        Return r env' \<Rightarrow> Some (r, env')
      | Again next so_far' env' \<Rightarrow>
          pages get account_number start_date end_date token (Some next) so_far' env')"

definition get_transactions ::
  "'w transport \<Rightarrow> string \<Rightarrow> string \<Rightarrow> string \<Rightarrow> string \<Rightarrow> ('w, 'f) world
     \<Rightarrow> ((error + transaction list) \<times> ('w, 'f) world) option" where
  "get_transactions get account_number start_date end_date token env =
     pages get account_number start_date end_date token None [] env"

section \<open>Writing the reports\<close>

text \<open>\<open>str.lower\<close> on ASCII text, and the header of the CSV file.\<close>

definition lower :: "string \<Rightarrow> string" where
  "lower s = map (\<lambda>c. if (of_char c :: nat) \<in> {65..90} then char_of (of_char c + 32 :: nat) else c) s"

definition fieldnames :: "string list" where
  "fieldnames = [''date'', ''money_in'', ''money_out'', ''money_in_UAH'', ''money_out_UAH'']"

text \<open>
  One report for each account, in the order in which \<open>accounts\<close> is iterated.  An
  exception of \<open>get_transactions\<close> or of \<open>calculate_daily_amounts\<close> leaves the
  function; the accounts that follow are not processed.  The local \<open>transactions\<close> is
  \<open>found\<close> here.
\<close>

fun generate_report ::
  "'w transport \<Rightarrow> (string \<Rightarrow> error + 'f::{zero,plus}) \<Rightarrow> date \<Rightarrow> string list \<Rightarrow> string \<Rightarrow> string \<Rightarrow> string \<Rightarrow> string
     \<Rightarrow> ('w, 'f) world \<Rightarrow> ((error + unit) \<times> ('w, 'f) world) option" where
  "generate_report get float now [] start_date end_date token format env = Some (Inr (), env)"
| "generate_report get float now (account # accounts) start_date end_date token format env =
     (case get_transactions get account start_date end_date token
             (logging INFO (Processing_account account) env) of
        None \<Rightarrow> None
      | Some (Inl e, env) \<Rightarrow> Some (Inl e, env)
      | Some (Inr found, env) \<Rightarrow>
          if found = []
          then generate_report get float now accounts start_date end_date token format
                 (logging WARNING (No_transactions_found account) env)
          else
            let account_name =
                  (case hd found ''AUT_MY_NAM'' of None \<Rightarrow> ''Unknown'' | Some n \<Rightarrow> n)
            in case calculate_daily_amounts float now found start_date (Some end_date) of
                 Inl e \<Rightarrow> Some (Inl e, env)
               | Inr daily_amounts \<Rightarrow>
                   if lower format = ''csv''
                   then
                     let file_name = account_name @ ''_'' @ account @ ''_report_''
                                       @ start_date @ ''_'' @ end_date @ ''.csv''
                     in if daily_amounts = []
                        then Some (Inl IndexError,
                                   env\<lparr>files := (files env)(file_name \<mapsto> Empty_file)\<rparr>)
                        else generate_report get float now accounts start_date end_date token format
                               (logging INFO (Report_generated account file_name)
                                  (env\<lparr>files := (files env)(file_name \<mapsto>
                                                   Csv_file fieldnames daily_amounts)\<rparr>))
                   else
                     let file_name = account_name @ ''_'' @ account @ ''_report_''
                                       @ start_date @ ''_'' @ end_date @ ''.json''
                     in generate_report get float now accounts start_date end_date token format
                          (logging INFO (Report_generated account file_name)
                             (env\<lparr>files := (files env)(file_name \<mapsto>
                                              Json_file daily_amounts)\<rparr>)))"

section \<open>Vocabulary of the properties\<close>

text \<open>
  What the first loop reads from one transaction: its day, the two amounts and the
  direction code.  \<open>accumulated\<close> is the loop on transactions that were read
  without error.
\<close>

type_synonym 'f entry = "date \<times> 'f \<times> 'f \<times> string"

fun accumulated :: "'f::{zero,plus} entry list \<Rightarrow> 'f daily_totals \<Rightarrow> 'f daily_totals" where
  "accumulated [] dt = dt"
| "accumulated ((d, x) # es) dt =
     accumulated es (AList.update d (add_amounts x (default_get dt d)) dt)"

definition amount :: "'f entry \<Rightarrow> 'f" where
  "amount e = fst (snd e)"

definition amount_uah :: "'f entry \<Rightarrow> 'f" where
  "amount_uah e = fst (snd (snd e))"

text \<open>
  The entries of day \<open>d\<close>, those with the direction code \<open>C\<close> and those with any other
  code, each in the order of the transactions.
\<close>

definition day_entries :: "'f entry list \<Rightarrow> date \<Rightarrow> ('f \<times> 'f \<times> string) list" where
  "day_entries es d = map snd (filter (\<lambda>e. fst e = d) es)"

definition credits :: "'f entry list \<Rightarrow> date \<Rightarrow> 'f entry list" where
  "credits es d = filter (\<lambda>e. fst e = d \<and> snd (snd (snd e)) = ''C'') es"

definition debits :: "'f entry list \<Rightarrow> date \<Rightarrow> 'f entry list" where
  "debits es d = filter (\<lambda>e. fst e = d \<and> snd (snd (snd e)) \<noteq> ''C'') es"

text \<open>
  The totals of day \<open>d\<close>.  \<open>foldl (+) 0 [x1, x2, x3]\<close> is \<open>((0 + x1) + x2) + x3\<close>:
  the amounts added one after the other to the \<open>0\<close> the accumulator starts from, in
  the order of the transactions, as \<open>+=\<close> does in the loop.
\<close>

definition day_totals :: "'f::{zero,plus} entry list \<Rightarrow> date \<Rightarrow> 'f totals" where
  "day_totals es d =
     \<lparr>totals.money_in = foldl (+) 0 (map amount (credits es d)),
      totals.money_out = foldl (+) 0 (map amount (debits es d)),
      totals.money_in_UAH = foldl (+) 0 (map amount_uah (credits es d)),
      totals.money_out_UAH = foldl (+) 0 (map amount_uah (debits es d))\<rparr>"

text \<open>The record of day \<open>d\<close> in the result, and the record of a day without transactions.\<close>

definition daily_record :: "'f::{zero,plus} entry list \<Rightarrow> date \<Rightarrow> 'f daily_amount" where
  "daily_record es d =
     \<lparr>date = strftime d,
      money_in = foldl (+) 0 (map amount (credits es d)),
      money_out = foldl (+) 0 (map amount (debits es d)),
      money_in_UAH = foldl (+) 0 (map amount_uah (credits es d)),
      money_out_UAH = foldl (+) 0 (map amount_uah (debits es d))\<rparr>"

definition zero_record :: "date \<Rightarrow> 'f::zero daily_amount" where
  "zero_record d =
     \<lparr>date = strftime d, money_in = 0, money_out = 0, money_in_UAH = 0, money_out_UAH = 0\<rparr>"

text \<open>The days of the calendar, from 0001-01-01 to 9999-12-31 (\<open>date.min\<close> to \<open>date.max\<close>).\<close>

definition valid_day :: "date \<Rightarrow> bool" where
  "valid_day d \<longleftrightarrow> 1 \<le> d \<and> d \<le> 3652059"

text \<open>
  The confirmed transactions of a list of pages, in the order of the pages, and the
  pages the server reported as successful.
\<close>

definition is_confirmed :: "transaction \<Rightarrow> bool" where
  "is_confirmed t \<longleftrightarrow> t ''PR_PR'' = Some ''r''"

definition confirmed_of :: "json_data list \<Rightarrow> transaction list" where
  "confirmed_of ps = concat (map (\<lambda>p. filter is_confirmed (transactions p)) ps)"

definition successful :: "json_data \<Rightarrow> bool" where
  "successful p \<longleftrightarrow> status p = ''SUCCESS''"

text \<open>
  \<open>serves get req follow_id w ps w'\<close>: asked for one page after the other, from the
  state \<open>w\<close>, the server answers with the pages \<open>ps\<close> and ends in the state \<open>w'\<close>;
  the first request carries \<open>follow_id\<close> and each later one the \<open>next_page_id\<close> of the
  page before.  \<open>requests_for\<close> lists these requests.
\<close>

fun requests_for ::
  "(string option \<Rightarrow> request) \<Rightarrow> string option \<Rightarrow> json_data list \<Rightarrow> request list" where
  "requests_for req follow_id [] = []"
| "requests_for req follow_id (data # rest) =
     req follow_id # requests_for req (Some (next_page_id data)) rest"

fun serves ::
  "'w transport \<Rightarrow> (string option \<Rightarrow> request) \<Rightarrow> string option \<Rightarrow> 'w \<Rightarrow> json_data list \<Rightarrow> 'w
     \<Rightarrow> bool" where
  "serves get req follow_id w [] w' \<longleftrightarrow> w' = w"
| "serves get req follow_id w (data # rest) w' \<longleftrightarrow>
     fst (get (req follow_id) w) = data
     \<and> serves get req (Some (next_page_id data)) (snd (get (req follow_id) w)) rest w'"

text \<open>The world after one exchange.\<close>

definition received :: "request \<Rightarrow> json_data \<Rightarrow> 'w \<Rightarrow> ('w, 'f) world \<Rightarrow> ('w, 'f) world" where
  "received req data w env = env\<lparr>net := w, exchanges := exchanges env @ [(req, data)]\<rparr>"

text \<open>
  The loop cut off after \<open>n\<close> turns.  It returns what \<open>pages\<close> returns when \<open>n\<close>
  turns are enough, and \<open>pages\<close> returns only what some number of turns gives (lemmas
  \<open>pages_upto_pages\<close> and \<open>pages_pages_upto\<close>).
\<close>

fun pages_upto ::
  "nat \<Rightarrow> 'w transport \<Rightarrow> string \<Rightarrow> string \<Rightarrow> string \<Rightarrow> string \<Rightarrow> string option
     \<Rightarrow> transaction list \<Rightarrow> ('w, 'f) world \<Rightarrow> ((error + transaction list) \<times> ('w, 'f) world) option" where
  "pages_upto 0 get account_number start_date end_date token follow_id so_far env = None"
| "pages_upto (Suc n) get account_number start_date end_date token follow_id so_far env =
     (case page get account_number start_date end_date token follow_id so_far env of
        Return r env' \<Rightarrow> Some (r, env')
      | Again next so_far' env' \<Rightarrow>
          pages_upto n get account_number start_date end_date token (Some next) so_far' env')"

section \<open>Example data\<close>

text \<open>
  The arithmetic of the examples is that of exact decimals: \<open>decimal\<close> reads a plain
  decimal (an optional sign, digits and at most one point, with a digit somewhere) as
  the rational number it denotes, and \<open>0\<close> and \<open>+\<close> are those of the rationals.  The
  amounts of the examples are 100, 200, 2700, 5400, 50, 1350, -5, -135, 7.5 and 202.5,
  and the only sums formed are \<open>0 + x\<close> for one of them: a double holds each of these
  values exactly, so on the examples this arithmetic gives the values of Python's
  \<open>float\<close> and \<open>+=\<close>.
\<close>

definition unsigned_decimal :: "string \<Rightarrow> error + rat" where
  "unsigned_decimal s =
     (let ip = takeWhile is_digit s; r = dropWhile is_digit s
      in if r = [] then (if ip = [] then Inl ValueError else Inr (of_int (int_of_digits ip)))
         else if hd r = CHR ''.'' \<and> list_all is_digit (tl r) \<and> (ip \<noteq> [] \<or> tl r \<noteq> [])
         then Inr (of_int (int_of_digits (ip @ tl r)) / 10 ^ length (tl r))
         else Inl ValueError)"

definition decimal :: "string \<Rightarrow> error + rat" where
  "decimal s =
     (case s of
        [] \<Rightarrow> Inl ValueError
      | c # r \<Rightarrow>
          if c = CHR ''-'' then ebind (unsigned_decimal r) (\<lambda>x. Inr (- x))
          else if c = CHR ''+'' then unsigned_decimal r
          else unsigned_decimal s)"

text \<open>
  The day the clock shows (2024-03-06), the two transactions of the test suite
  (\<open>example_transactions\<close> in \<open>test_main.py\<close>), a debit after the end of the range
  used below, a credit with negative amounts, and a credit that is not confirmed.
\<close>

definition today :: date where
  "today = 738951"

definition tx_credit :: transaction where
  "tx_credit = [''DATE_TIME_DAT_OD_TIM_P'' \<mapsto> ''01.03.2024 12:00:00'', ''SUM'' \<mapsto> ''100.00'',
                ''SUM_E'' \<mapsto> ''2700.00'', ''TRANTYPE'' \<mapsto> ''C'', ''PR_PR'' \<mapsto> ''r'']"

definition tx_debit :: transaction where
  "tx_debit = [''DATE_TIME_DAT_OD_TIM_P'' \<mapsto> ''02.03.2024 12:00:00'', ''SUM'' \<mapsto> ''200.00'',
               ''SUM_E'' \<mapsto> ''5400.00'', ''TRANTYPE'' \<mapsto> ''D'', ''PR_PR'' \<mapsto> ''r'']"

definition example_transactions :: "transaction list" where
  "example_transactions = [tx_credit, tx_debit]"

definition tx_late :: transaction where
  "tx_late = [''DATE_TIME_DAT_OD_TIM_P'' \<mapsto> ''05.03.2024 09:30:00'', ''SUM'' \<mapsto> ''50.00'',
              ''SUM_E'' \<mapsto> ''1350.00'', ''TRANTYPE'' \<mapsto> ''D'', ''PR_PR'' \<mapsto> ''r'']"

definition tx_refund :: transaction where
  "tx_refund = [''DATE_TIME_DAT_OD_TIM_P'' \<mapsto> ''01.03.2024 08:15:00'', ''SUM'' \<mapsto> ''-5.00'',
                ''SUM_E'' \<mapsto> ''-135.00'', ''TRANTYPE'' \<mapsto> ''C'', ''PR_PR'' \<mapsto> ''r'']"

definition tx_pending :: transaction where
  "tx_pending = [''DATE_TIME_DAT_OD_TIM_P'' \<mapsto> ''01.03.2024 18:45:10'', ''SUM'' \<mapsto> ''7.50'',
                 ''SUM_E'' \<mapsto> ''202.50'', ''TRANTYPE'' \<mapsto> ''C'', ''PR_PR'' \<mapsto> ''p'']"

text \<open>
  Answers of the server: the first of two pages, the second, the single page of the
  test suite's mock, a page without transactions and a refusal.
\<close>

definition page_one :: json_data where
  "page_one = \<lparr>status = ''SUCCESS'', transactions = [tx_credit, tx_pending],
                exist_next_page = True, next_page_id = ''2''\<rparr>"

definition page_two :: json_data where
  "page_two = \<lparr>status = ''SUCCESS'', transactions = [tx_debit],
                exist_next_page = False, next_page_id = []\<rparr>"

definition single_page :: json_data where
  "single_page = \<lparr>status = ''SUCCESS'', transactions = example_transactions,
                   exist_next_page = False, next_page_id = []\<rparr>"

definition empty_page :: json_data where
  "empty_page = \<lparr>status = ''SUCCESS'', transactions = [],
                  exist_next_page = False, next_page_id = []\<rparr>"

definition failure_page :: json_data where
  "failure_page = \<lparr>status = ''ERROR'', transactions = [],
                    exist_next_page = False, next_page_id = []\<rparr>"

text \<open>
  A server that plays a script: it answers each request with the next page of its
  list, whatever the request, and refuses once the list is used up.  The world at the
  start has no exchange, an empty log and no file.
\<close>

fun scripted :: "json_data list transport" where
  "scripted req [] = (failure_page, [])"
| "scripted req (data # rest) = (data, rest)"

definition start_world :: "'w \<Rightarrow> ('w, rat) world" where
  "start_world w = \<lparr>net = w, exchanges = [], logged = [], files = Map.empty\<rparr>"

section \<open>Lemmas on the daily totals\<close>

lemma ebind_simps [simp]: "ebind (Inr x) f = f x" "ebind (Inl e) f = Inl e"
  by (simp_all add: ebind_def)

lemma ebind_eq_Inr: "ebind m f = Inr y \<longleftrightarrow> (\<exists>x. m = Inr x \<and> f x = Inr y)"
  by (cases m) simp_all

lemma accumulate_iff:
  "accumulate float txs dt = Inr dt' \<longleftrightarrow>
     (\<exists>es. map (read_transaction float) txs = map Inr es \<and> dt' = accumulated es dt)"
proof (induction txs arbitrary: dt)
  case Nil
  show ?case by auto
next
  case (Cons t txs)
  show ?case
  proof (cases "read_transaction float t")
    case (Inl e)
    then show ?thesis by (auto simp: map_eq_Cons_conv)
  next
    case (Inr p)
    obtain d x where p: "p = (d, x)" by (cases p)
    let ?dt = "AList.update d (add_amounts x (default_get dt d)) dt"
    have "accumulate float (t # txs) dt = accumulate float txs ?dt"
      using Inr p by simp
    moreover have "(\<exists>es. map (read_transaction float) (t # txs) = map Inr es \<and> dt' = accumulated es dt)
        \<longleftrightarrow> (\<exists>es. map (read_transaction float) txs = map Inr es \<and> dt' = accumulated es ?dt)"
      (is "?L \<longleftrightarrow> ?R")
    proof
      assume ?L
      then obtain es where es: "map (read_transaction float) (t # txs) = map Inr es"
        "dt' = accumulated es dt" by blast
      then obtain e es' where "es = e # es'" by (cases es) auto
      with es Inr p show ?R by auto
    next
      assume ?R
      then obtain es where "map (read_transaction float) txs = map Inr es"
        "dt' = accumulated es ?dt" by blast
      with Inr p have "map (read_transaction float) (t # txs) = map Inr ((d, x) # es)
          \<and> dt' = accumulated ((d, x) # es) dt" by simp
      then show ?L by blast
    qed
    ultimately show ?thesis using Cons.IH [of ?dt] by simp
  qed
qed

lemma default_get_update:
  "default_get (AList.update k v dt) d = (if d = k then v else default_get dt d)"
  by (simp add: default_get_def update_conv')

lemma keys_accumulated:
  "fst ` set (accumulated es dt) = fst ` set dt \<union> fst ` set es"
  by (induction es dt rule: accumulated.induct) (auto simp: dom_update)

lemma distinct_accumulated:
  "distinct (map fst dt) \<Longrightarrow> distinct (map fst (accumulated es dt))"
  by (induction es dt rule: accumulated.induct) (simp_all add: distinct_update)

lemma keys_fill_gaps: "fst ` set (fill_gaps days dt) = fst ` set dt \<union> set days"
  by (induction days arbitrary: dt) (auto simp: dom_update)

lemma distinct_fill_gaps:
  "distinct (map fst dt) \<Longrightarrow> distinct (map fst (fill_gaps days dt))"
  by (induction days arbitrary: dt) (simp_all add: distinct_update)

lemma default_get_fill_gaps: "default_get (fill_gaps days dt) d = default_get dt d"
proof (induction days arbitrary: dt)
  case Nil
  show ?case by simp
next
  case (Cons day days)
  have "default_get dt day = zero_totals" if "day \<notin> fst ` set dt"
  proof -
    from that have "map_of dt day = None" by (simp add: map_of_eq_None_iff)
    then show ?thesis by (simp add: default_get_def)
  qed
  then show ?case
    using Cons.IH by (simp add: default_get_update)
qed

lemma sorted_items:
  assumes "distinct (map fst dt)"
  shows "sort_key fst dt =
           map (\<lambda>d. (d, default_get dt d)) (sorted_list_of_set (fst ` set dt))"
proof -
  let ?s = "sort_key fst dt"
  have keys: "map fst ?s = sorted_list_of_set (fst ` set dt)"
  proof (rule sorted_distinct_set_unique)
    show "sorted (map fst ?s)" by simp
    show "distinct (map fst ?s)" using assms by (simp add: distinct_map)
    show "sorted (sorted_list_of_set (fst ` set dt))" by simp
    show "distinct (sorted_list_of_set (fst ` set dt))" by simp
    show "set (map fst ?s) = set (sorted_list_of_set (fst ` set dt))" by simp
  qed
  have "map (\<lambda>p. (fst p, default_get dt (fst p))) ?s = ?s"
  proof (rule map_idI)
    fix p assume "p \<in> set ?s"
    then have "(fst p, snd p) \<in> set dt" by simp
    with assms have "map_of dt (fst p) = Some (snd p)" by simp
    then show "(fst p, default_get dt (fst p)) = p"
      by (simp add: default_get_def)
  qed
  then have "?s = map (\<lambda>p. (fst p, default_get dt (fst p))) ?s"
    by simp
  also have "\<dots> = map (\<lambda>d. (d, default_get dt d)) (map fst ?s)"
    by (simp add: comp_def)
  finally show ?thesis using keys by simp
qed

lemma default_get_accumulated:
  "default_get (accumulated es dt) d = fold add_amounts (day_entries es d) (default_get dt d)"
  by (induction es dt rule: accumulated.induct)
     (simp_all add: day_entries_def default_get_update)

lemma fold_add_amounts:
  "fold add_amounts (day_entries es d) r =
     \<lparr>totals.money_in = foldl (+) (totals.money_in r) (map amount (credits es d)),
      totals.money_out = foldl (+) (totals.money_out r) (map amount (debits es d)),
      totals.money_in_UAH = foldl (+) (totals.money_in_UAH r) (map amount_uah (credits es d)),
      totals.money_out_UAH = foldl (+) (totals.money_out_UAH r) (map amount_uah (debits es d))\<rparr>"
proof (induction es arbitrary: r)
  case Nil
  show ?case by (simp add: day_entries_def credits_def debits_def)
next
  case (Cons e es)
  obtain d' a u tt where e: "e = (d', a, u, tt)" by (cases e)
  show ?case
  proof (cases "d' = d")
    case False
    with e Cons.IH [of r] show ?thesis
      by (simp add: day_entries_def credits_def debits_def)
  next
    case True
    with e Cons.IH [of "add_amounts (a, u, tt) r"] show ?thesis
      by (simp add: day_entries_def credits_def debits_def add_amounts_def amount_def
          amount_uah_def)
  qed
qed

lemma default_get_accumulated_Nil: "default_get (accumulated es []) d = day_totals es d"
proof -
  have "default_get [] d = (zero_totals :: 'a totals)"
    by (simp add: default_get_def)
  then have "default_get (accumulated es []) d = fold add_amounts (day_entries es d) zero_totals"
    by (simp only: default_get_accumulated)
  then show ?thesis
    by (simp add: fold_add_amounts zero_totals_def day_totals_def)
qed

lemma default_get_Nil: "default_get [] d = zero_totals"
  by (simp add: default_get_def)

lemma range_days: "set (map (\<lambda>n. a + n) [0..b - a + 1 - 1]) = {a..b::int}"
proof -
  have "(\<lambda>n. a + n) ` {0..b - a} = {a..b}"
    by (simp add: image_add_atLeastAtMost)
  then show ?thesis by simp
qed

lemma calculate_daily_amounts_eq:
  assumes "strptime_date s = Inr a" "end_of_range now e = Inr b"
    and "map (read_transaction float) txs = map Inr es"
  shows "calculate_daily_amounts float now txs s e =
           Inr (map (daily_record es) (sorted_list_of_set (fst ` set es \<union> {a..b})))"
proof -
  let ?days = "map (\<lambda>n. a + n) [0..b - a + 1 - 1]"
  let ?dt = "fill_gaps ?days (accumulated es [])"
  have acc: "accumulate float txs [] = Inr (accumulated es [])"
    using assms(3) by (simp add: accumulate_iff)
  have dist: "distinct (map fst ?dt)"
    by (simp add: distinct_fill_gaps distinct_accumulated)
  have keys: "fst ` set ?dt = fst ` set es \<union> {a..b}"
    unfolding keys_fill_gaps keys_accumulated range_days by simp
  have val: "default_get ?dt d = day_totals es d" for d
    by (simp add: default_get_fill_gaps default_get_accumulated_Nil)
  have "sort_key fst ?dt =
          map (\<lambda>d. (d, day_totals es d)) (sorted_list_of_set (fst ` set es \<union> {a..b}))"
    using sorted_items [OF dist] unfolding keys val .
  then show ?thesis
    using assms(1,2) acc
    by (simp add: calculate_daily_amounts_def Let_def comp_def daily_record_def day_totals_def)
qed

lemma calculate_daily_amounts_Inr:
  assumes "calculate_daily_amounts float now txs s e = Inr out"
  shows "\<exists>a b es. strptime_date s = Inr a \<and> end_of_range now e = Inr b
           \<and> map (read_transaction float) txs = map Inr es"
proof -
  from assms obtain a where a: "strptime_date s = Inr a"
    by (cases "strptime_date s") (simp_all add: calculate_daily_amounts_def)
  from assms a obtain b where b: "end_of_range now e = Inr b"
    by (cases "end_of_range now e") (simp_all add: calculate_daily_amounts_def)
  from assms a b obtain dt where "accumulate float txs [] = Inr dt"
    by (cases "accumulate float txs []") (simp_all add: calculate_daily_amounts_def Let_def)
  then obtain es where "map (read_transaction float) txs = map Inr es"
    unfolding accumulate_iff by blast
  with a b show ?thesis by blast
qed

lemma sorted_list_of_set_upto: "sorted_list_of_set {a..b::int} = [a..b]"
  by (rule sorted_distinct_set_unique) simp_all

lemma daily_record_Nil: "daily_record [] d = zero_record d"
  by (simp add: daily_record_def zero_record_def credits_def debits_def)

lemma date_daily_record: "date (daily_record es d) = strftime d"
  by (simp add: daily_record_def)

lemma foldl_nonneg:
  fixes xs :: "'f::{zero,plus,ord} list"
  assumes "\<And>x y :: 'f. 0 \<le> x \<Longrightarrow> 0 \<le> y \<Longrightarrow> 0 \<le> x + y"
    and "0 \<le> s" and "\<forall>x\<in>set xs. 0 \<le> x"
  shows "0 \<le> foldl (+) s xs"
  using assms(2,3)
proof (induction xs arbitrary: s)
  case Nil
  then show ?case by simp
next
  case (Cons x xs)
  from Cons.prems have "0 \<le> s + x" by (simp add: assms(1))
  with Cons.prems show ?case by (simp add: Cons.IH)
qed

section \<open>Lemmas on the calendar\<close>

text \<open>
  \<open>ord2ymd\<close> inverts \<open>ymd2ord\<close>, so two days of the calendar with the same
  \<open>strftime\<close> text are the same day.
\<close>

lemma month_day_correct:
  fixes r :: int
  assumes r: "0 \<le> r" "r \<le> 364" and mo: "mo = (r + 50) div 32"
    and p: "p = DAYS_BEFORE_MONTH ! nat mo + (if mo > 2 \<and> leap then 1 else 0)"
    and res: "(m, d) =
       (if p > r
        then (mo - 1, r - (p - (DAYS_IN_MONTH ! nat (mo - 1)
                                  + (if mo - 1 = 2 \<and> leap then 1 else 0))) + 1)
        else (mo, r - p + 1))"
  shows "1 \<le> m \<and> m \<le> 12 \<and> 1 \<le> d \<and> d \<le> 31
         \<and> DAYS_BEFORE_MONTH ! nat m + (if m > 2 \<and> leap then 1 else 0) + d = r + 1"
proof -
  have b: "32 * mo \<le> r + 50" "r + 50 < 32 * mo + 32"
    using mo by arith+
  with r have "1 \<le> mo" "mo \<le> 12" by arith+
  then have "mo = 1 \<or> mo = 2 \<or> mo = 3 \<or> mo = 4 \<or> mo = 5 \<or> mo = 6
      \<or> mo = 7 \<or> mo = 8 \<or> mo = 9 \<or> mo = 10 \<or> mo = 11 \<or> mo = 12"
    by presburger
  then consider "mo = 1" | "mo = 2" | "mo = 3" | "mo = 4" | "mo = 5" | "mo = 6"
    | "mo = 7" | "mo = 8" | "mo = 9" | "mo = 10" | "mo = 11" | "mo = 12"
    by blast
  then show ?thesis
  proof cases
    case 1
    with b r p res show ?thesis
      by (auto simp: DAYS_BEFORE_MONTH_def DAYS_IN_MONTH_def split: if_splits)
  next
    case 2
    with b r p res show ?thesis
      by (auto simp: DAYS_BEFORE_MONTH_def DAYS_IN_MONTH_def split: if_splits)
  next
    case 3
    with b r p res show ?thesis
      by (auto simp: DAYS_BEFORE_MONTH_def DAYS_IN_MONTH_def split: if_splits)
  next
    case 4
    with b r p res show ?thesis
      by (auto simp: DAYS_BEFORE_MONTH_def DAYS_IN_MONTH_def split: if_splits)
  next
    case 5
    with b r p res show ?thesis
      by (auto simp: DAYS_BEFORE_MONTH_def DAYS_IN_MONTH_def split: if_splits)
  next
    case 6
    with b r p res show ?thesis
      by (auto simp: DAYS_BEFORE_MONTH_def DAYS_IN_MONTH_def split: if_splits)
  next
    case 7
    with b r p res show ?thesis
      by (auto simp: DAYS_BEFORE_MONTH_def DAYS_IN_MONTH_def split: if_splits)
  next
    case 8
    with b r p res show ?thesis
      by (auto simp: DAYS_BEFORE_MONTH_def DAYS_IN_MONTH_def split: if_splits)
  next
    case 9
    with b r p res show ?thesis
      by (auto simp: DAYS_BEFORE_MONTH_def DAYS_IN_MONTH_def split: if_splits)
  next
    case 10
    with b r p res show ?thesis
      by (auto simp: DAYS_BEFORE_MONTH_def DAYS_IN_MONTH_def split: if_splits)
  next
    case 11
    with b r p res show ?thesis
      by (auto simp: DAYS_BEFORE_MONTH_def DAYS_IN_MONTH_def split: if_splits)
  next
    case 12
    with b r p res show ?thesis
      by (auto simp: DAYS_BEFORE_MONTH_def DAYS_IN_MONTH_def split: if_splits)
  qed
qed


lemma div_mod_block:
  fixes k c a :: int
  assumes "0 < k" "0 \<le> a" "a < k"
  shows "(k * c + a) div k = c" "(k * c + a) mod k = a"
  using assms by simp_all

lemma mod_block_zero:
  fixes k c a :: int
  assumes "0 < k" "0 < a" "a \<le> k"
  shows "(k * c + a) mod k = 0 \<longleftrightarrow> a = k"
proof (cases "a = k")
  case True
  then show ?thesis by simp
next
  case False
  with assms have "(k * c + a) mod k = a" by simp
  with False assms show ?thesis by simp
qed

lemma days_before_year_split:
  assumes "0 \<le> q100" "q100 \<le> 3" "0 \<le> q4" "q4 \<le> 24" "0 \<le> q1" "q1 \<le> 3"
  shows "days_before_year (q400 * 400 + 1 + q100 * 100 + q4 * 4 + q1) =
           146097 * q400 + 36524 * q100 + 1461 * q4 + 365 * q1"
proof -
  define z where "z = q400 * 400 + q100 * 100 + q4 * 4 + q1"
  have "z = 4 * (100 * q400 + 25 * q100 + q4) + q1" by (simp add: z_def)
  then have d4: "z div 4 = 100 * q400 + 25 * q100 + q4"
    using assms by (simp only: div_mod_block)
  have "z = 100 * (4 * q400 + q100) + (4 * q4 + q1)" by (simp add: z_def)
  moreover have "0 \<le> 4 * q4 + q1" "4 * q4 + q1 < 100" using assms by arith+
  ultimately have d100: "z div 100 = 4 * q400 + q100"
    by (simp only: div_mod_block)
  have "z = 400 * q400 + (100 * q100 + 4 * q4 + q1)" by (simp add: z_def)
  moreover have "0 \<le> 100 * q100 + 4 * q4 + q1" "100 * q100 + 4 * q4 + q1 < 400"
    using assms by arith+
  ultimately have d400: "z div 400 = q400"
    by (simp only: div_mod_block)
  have "q400 * 400 + 1 + q100 * 100 + q4 * 4 + q1 - 1 = z" by (simp add: z_def)
  then have "days_before_year (q400 * 400 + 1 + q100 * 100 + q4 * 4 + q1) =
      z * 365 + z div 4 - z div 100 + z div 400"
    by (simp only: days_before_year_def Let_def)
  also have "\<dots> = 146097 * q400 + 36524 * q100 + 1461 * q4 + 365 * q1"
    unfolding d4 d100 d400 by (simp add: z_def)
  finally show ?thesis .
qed

lemma is_leap_split:
  assumes "0 \<le> q100" "q100 \<le> 3" "0 \<le> q4" "q4 \<le> 24" "0 \<le> q1" "q1 \<le> 3"
  shows "is_leap (q400 * 400 + 1 + q100 * 100 + q4 * 4 + q1) \<longleftrightarrow>
           q1 = 3 \<and> (q4 \<noteq> 24 \<or> q100 = 3)"
proof -
  define y where "y = q400 * 400 + 1 + q100 * 100 + q4 * 4 + q1"
  have "y = 4 * (100 * q400 + 25 * q100 + q4) + (q1 + 1)" by (simp add: y_def)
  moreover have "0 < q1 + 1" "q1 + 1 \<le> 4" using assms by arith+
  ultimately have "y mod 4 = 0 \<longleftrightarrow> q1 + 1 = 4"
    by (simp only: mod_block_zero)
  then have m4: "y mod 4 = 0 \<longleftrightarrow> q1 = 3" by arith
  have "y = 100 * (4 * q400 + q100) + (4 * q4 + q1 + 1)" by (simp add: y_def)
  moreover have "0 < 4 * q4 + q1 + 1" "4 * q4 + q1 + 1 \<le> 100" using assms by arith+
  ultimately have "y mod 100 = 0 \<longleftrightarrow> 4 * q4 + q1 + 1 = 100"
    by (simp only: mod_block_zero)
  then have m100: "y mod 100 = 0 \<longleftrightarrow> q4 = 24 \<and> q1 = 3" using assms by arith
  have "y = 400 * q400 + (100 * q100 + 4 * q4 + q1 + 1)" by (simp add: y_def)
  moreover have "0 < 100 * q100 + 4 * q4 + q1 + 1" "100 * q100 + 4 * q4 + q1 + 1 \<le> 400"
    using assms by arith+
  ultimately have "y mod 400 = 0 \<longleftrightarrow> 100 * q100 + 4 * q4 + q1 + 1 = 400"
    by (simp only: mod_block_zero)
  then have m400: "y mod 400 = 0 \<longleftrightarrow> q100 = 3 \<and> q4 = 24 \<and> q1 = 3" using assms by arith
  show ?thesis
    unfolding y_def [symmetric] is_leap_def m4 m100 m400 by blast
qed


lemma ord2ymd_correct:
  assumes "1 \<le> n" and "ord2ymd n = (y, m, d)"
  shows "ymd2ord y m d = n \<and> 1 \<le> y \<and> 1 \<le> m \<and> m \<le> 12 \<and> 1 \<le> d \<and> d \<le> 31"
proof -
  define n0 where "n0 = n - 1"
  define q400 where "q400 = n0 div 146097"
  define r1 where "r1 = n0 mod 146097"
  define q100 where "q100 = r1 div 36524"
  define r2 where "r2 = r1 mod 36524"
  define q4 where "q4 = r2 div 1461"
  define r3 where "r3 = r2 mod 1461"
  define q1 where "q1 = r3 div 365"
  define r4 where "r4 = r3 mod 365"
  define leap where "leap \<longleftrightarrow> q1 = 3 \<and> (q4 \<noteq> 24 \<or> q100 = 3)"
  define mo where "mo = (r4 + 50) div 32"
  define p where "p = DAYS_BEFORE_MONTH ! nat mo + (if mo > 2 \<and> leap then 1 else 0)"
  define Y where "Y = q400 * 400 + 1 + q100 * 100 + q4 * 4 + q1"
  have n0: "n0 = 146097 * q400 + r1" "0 \<le> r1" "r1 < 146097"
    by (simp_all add: q400_def r1_def)
  have "0 \<le> n0" using assms(1) by (simp add: n0_def)
  then have q400: "0 \<le> q400" by (simp add: q400_def pos_imp_zdiv_nonneg_iff)
  have r1: "r1 = 36524 * q100 + r2" "0 \<le> r2" "r2 < 36524"
    by (simp_all add: q100_def r2_def)
  have q100: "0 \<le> q100" "q100 \<le> 4" using r1 n0 by arith+
  have r2: "r2 = 1461 * q4 + r3" "0 \<le> r3" "r3 < 1461"
    by (simp_all add: q4_def r3_def)
  have q4: "0 \<le> q4" "q4 \<le> 24" using r2 r1 by arith+
  have r3: "r3 = 365 * q1 + r4" "0 \<le> r4" "r4 < 365"
    by (simp_all add: q1_def r4_def)
  have q1: "0 \<le> q1" "q1 \<le> 4" using r3 r2 by arith+
  have n: "n = 146097 * q400 + 36524 * q100 + 1461 * q4 + 365 * q1 + r4 + 1"
    using n0(1) r1(1) r2(1) r3(1) by (simp add: n0_def)
  have eq: "ord2ymd n =
      (if q1 = 4 \<or> q100 = 4 then (Y - 1, 12, 31)
       else if p > r4
         then (Y, mo - 1, r4 - (p - (DAYS_IN_MONTH ! nat (mo - 1)
                                       + (if mo - 1 = 2 \<and> leap then 1 else 0))) + 1)
         else (Y, mo, r4 - p + 1))"
    unfolding ord2ymd_def Let_def Y_def p_def mo_def leap_def r4_def q1_def r3_def q4_def r2_def
      q100_def r1_def q400_def n0_def
    by simp
  show ?thesis
  proof (cases "q100 = 4")
    case True
    with r1 n0 have "r2 = 0" by arith
    with r2 q4 have "q4 = 0" "r3 = 0" by arith+
    with r3 q1 have "q1 = 0" "r4 = 0" by arith+
    have y: "y = q400 * 400 + 1 + 3 * 100 + 24 * 4 + 3" and md: "m = 12" "d = 31"
      using assms(2) eq True \<open>q4 = 0\<close> \<open>q1 = 0\<close> by (simp_all add: Y_def)
    have "days_before_year y = 146097 * q400 + 36524 * 3 + 1461 * 24 + 365 * 3"
      unfolding y by (rule days_before_year_split) simp_all
    moreover have "is_leap y"
      unfolding y by (subst is_leap_split) simp_all
    ultimately have "ymd2ord y m d = n"
      using n True \<open>q4 = 0\<close> \<open>q1 = 0\<close> \<open>r4 = 0\<close> md
      by (simp add: ymd2ord_def days_before_month_def DAYS_BEFORE_MONTH_def)
    moreover have "1 \<le> y" using y q400 by arith
    ultimately show ?thesis using md by simp
  next
    case False
    with q100 have q100': "0 \<le> q100" "q100 \<le> 3" by arith+
    show ?thesis
    proof (cases "q1 = 4")
      case True
      with r3 r2 have "r4 = 0" by arith
      from True r3 r2 r1 q4 have q4': "0 \<le> q4" "q4 \<le> 23" by arith+
      have y: "y = q400 * 400 + 1 + q100 * 100 + q4 * 4 + 3" and md: "m = 12" "d = 31"
        using assms(2) eq True by (simp_all add: Y_def)
      have "days_before_year y = 146097 * q400 + 36524 * q100 + 1461 * q4 + 365 * 3"
        unfolding y using q100' q4' by (intro days_before_year_split) simp_all
      moreover have "is_leap y"
        unfolding y using q100' q4' by (subst is_leap_split) simp_all
      ultimately have "ymd2ord y m d = n"
        using n True \<open>r4 = 0\<close> md
        by (simp add: ymd2ord_def days_before_month_def DAYS_BEFORE_MONTH_def)
      moreover have "1 \<le> y" using y q400 q100' q4' by arith
      ultimately show ?thesis using md by simp
    next
      case q1_small: False
      with q1 have q1': "0 \<le> q1" "q1 \<le> 3" by arith+
      have res: "(m, d) =
          (if p > r4
           then (mo - 1, r4 - (p - (DAYS_IN_MONTH ! nat (mo - 1)
                                      + (if mo - 1 = 2 \<and> leap then 1 else 0))) + 1)
           else (mo, r4 - p + 1))"
        and y: "y = Y"
      proof -
        from assms(2) eq False q1_small
        have "(y, m, d) =
          (if p > r4
           then (Y, mo - 1, r4 - (p - (DAYS_IN_MONTH ! nat (mo - 1)
                                         + (if mo - 1 = 2 \<and> leap then 1 else 0))) + 1)
           else (Y, mo, r4 - p + 1))"
          by simp
        then show "(m, d) =
          (if p > r4
           then (mo - 1, r4 - (p - (DAYS_IN_MONTH ! nat (mo - 1)
                                      + (if mo - 1 = 2 \<and> leap then 1 else 0))) + 1)
           else (mo, r4 - p + 1))" and "y = Y"
          by (cases "p > r4"; simp)+
      qed
      have "r4 \<le> 364" using r3 by simp
      from month_day_correct [OF r3(2) this mo_def p_def res]
      have md: "1 \<le> m" "m \<le> 12" "1 \<le> d" "d \<le> 31"
        and sum: "DAYS_BEFORE_MONTH ! nat m + (if m > 2 \<and> leap then 1 else 0) + d = r4 + 1"
        by simp_all
      have "days_before_year y = 146097 * q400 + 36524 * q100 + 1461 * q4 + 365 * q1"
        unfolding y Y_def using q100' q4 q1' by (rule days_before_year_split)
      moreover have "is_leap y \<longleftrightarrow> leap"
        unfolding y Y_def leap_def using q100' q4 q1' by (rule is_leap_split)
      ultimately have "ymd2ord y m d = n"
        using n sum by (simp add: ymd2ord_def days_before_month_def)
      moreover have "1 \<le> y" unfolding y Y_def using q400 q100' q4 q1' by arith
      ultimately show ?thesis using md by simp
    qed
  qed
qed



lemma div_step:
  fixes y k :: int
  assumes "1 < k"
  shows "y div k = (y - 1) div k + (if y mod k = 0 then 1 else 0)"
proof -
  define q where "q = (y - 1) div k"
  define r where "r = (y - 1) mod k"
  have r: "0 \<le> r" "r < k" using assms by (simp_all add: r_def)
  have "y - 1 = k * q + r" by (simp add: q_def r_def)
  then have y: "y = k * q + (r + 1)" by simp
  show ?thesis
  proof (cases "r + 1 = k")
    case True
    with y have "y = k * (q + 1)" by (simp add: algebra_simps)
    then have "y div k = q + 1" "y mod k = 0" using assms by simp_all
    then show ?thesis by (simp add: q_def)
  next
    case False
    with r have "0 \<le> r + 1" "r + 1 < k" by simp_all
    with y assms have "y div k = q" "y mod k = r + 1" by simp_all
    with r show ?thesis by (simp add: q_def)
  qed
qed

lemma mod_chain:
  fixes y :: int
  shows "y mod 400 = 0 \<Longrightarrow> y mod 100 = 0" and "y mod 100 = 0 \<Longrightarrow> y mod 4 = 0"
proof -
  have "y mod 100 = y mod 400 mod 100" by (simp add: mod_mod_cancel)
  then show "y mod 400 = 0 \<Longrightarrow> y mod 100 = 0" by simp
  have "y mod 4 = y mod 100 mod 4" by (simp add: mod_mod_cancel)
  then show "y mod 100 = 0 \<Longrightarrow> y mod 4 = 0" by simp
qed

lemma days_before_year_step:
  "days_before_year (y + 1) = days_before_year y + 365 + (if is_leap y then 1 else 0)"
proof -
  define A where "A = (y - 1) div 4"
  define B where "B = (y - 1) div 100"
  define C where "C = (y - 1) div 400"
  have d4: "y div 4 = A + (if y mod 4 = 0 then 1 else 0)"
    unfolding A_def by (rule div_step) simp
  have d100: "y div 100 = B + (if y mod 100 = 0 then 1 else 0)"
    unfolding B_def by (rule div_step) simp
  have d400: "y div 400 = C + (if y mod 400 = 0 then 1 else 0)"
    unfolding C_def by (rule div_step) simp
  have lhs: "days_before_year (y + 1) = y * 365 + y div 4 - y div 100 + y div 400"
    by (simp add: days_before_year_def)
  have rhs: "days_before_year y = (y - 1) * 365 + A - B + C"
    by (simp only: days_before_year_def Let_def A_def B_def C_def)
  show ?thesis
  proof (cases "y mod 4 = 0")
    case n4: False
    then have n100: "y mod 100 \<noteq> 0" by (rule contrapos_nn) (rule mod_chain(2))
    then have n400: "y mod 400 \<noteq> 0" by (rule contrapos_nn) (rule mod_chain(1))
    have e: "y div 4 = A" "y div 100 = B" "y div 400 = C"
      using d4 d100 d400 n4 n100 n400 by simp_all
    have l: "\<not> is_leap y" using n4 by (simp add: is_leap_def)
    show ?thesis unfolding lhs rhs e using l by simp
  next
    case y4: True
    show ?thesis
    proof (cases "y mod 100 = 0")
      case n100: False
      then have n400: "y mod 400 \<noteq> 0" by (rule contrapos_nn) (rule mod_chain(1))
      have e: "y div 4 = A + 1" "y div 100 = B" "y div 400 = C"
        using d4 d100 d400 y4 n100 n400 by simp_all
      have l: "is_leap y" using y4 n100 by (simp add: is_leap_def)
      show ?thesis unfolding lhs rhs e using l by simp
    next
      case y100: True
      show ?thesis
      proof (cases "y mod 400 = 0")
        case n400: False
        have e: "y div 4 = A + 1" "y div 100 = B + 1" "y div 400 = C"
          using d4 d100 d400 y4 y100 n400 by simp_all
        have l: "\<not> is_leap y" using y100 n400 by (simp add: is_leap_def)
        show ?thesis unfolding lhs rhs e using l by simp
      next
        case y400: True
        have e: "y div 4 = A + 1" "y div 100 = B + 1" "y div 400 = C + 1"
          using d4 d100 d400 y4 y100 y400 by simp_all
        have l: "is_leap y" using y4 y400 by (simp add: is_leap_def)
        show ?thesis unfolding lhs rhs e using l by simp
      qed
    qed
  qed
qed

lemma days_before_year_mono: "y \<le> y' \<Longrightarrow> days_before_year y \<le> days_before_year y'"
proof (induction y' rule: int_ge_induct)
  case base
  show ?case by simp
next
  case (step i)
  then show ?case by (simp add: days_before_year_step)
qed

lemma days_before_year_1: "days_before_year 1 = 0"
  by (simp add: days_before_year_def)

lemma days_before_year_10000: "days_before_year 10000 = 3652059"
  by (simp add: days_before_year_def)

lemma days_before_month_bounds:
  assumes "1 \<le> m" "m \<le> 12"
  shows "0 \<le> days_before_month y m"
    and "days_before_month y m + days_in_month y m \<le> 365 + (if is_leap y then 1 else 0)"
proof -
  from assms have "m = 1 \<or> m = 2 \<or> m = 3 \<or> m = 4 \<or> m = 5 \<or> m = 6
      \<or> m = 7 \<or> m = 8 \<or> m = 9 \<or> m = 10 \<or> m = 11 \<or> m = 12"
    by presburger
  then show "0 \<le> days_before_month y m"
    and "days_before_month y m + days_in_month y m \<le> 365 + (if is_leap y then 1 else 0)"
    by (auto simp: days_before_month_def days_in_month_def DAYS_BEFORE_MONTH_def
        DAYS_IN_MONTH_def)
qed

lemma new_date_bounds:
  assumes "new_date y m d = Inr n"
  shows "1 \<le> n" "n \<le> 3652059"
proof -
  from assms have v: "1 \<le> y" "y \<le> 9999" "1 \<le> m" "m \<le> 12" "1 \<le> d" "d \<le> days_in_month y m"
    and n: "n = days_before_year y + days_before_month y m + d"
    by (simp_all add: new_date_def ymd2ord_def split: if_splits)
  have "0 \<le> days_before_year y"
    using days_before_year_mono [of 1 y] v(1) by (simp add: days_before_year_1)
  with days_before_month_bounds(1) [OF v(3,4), of y] v(5) n show "1 \<le> n" by simp
  have "days_before_year (y + 1) \<le> 3652059"
    using days_before_year_mono [of "y + 1" 10000] v(2) by (simp add: days_before_year_10000)
  with days_before_month_bounds(2) [OF v(3,4), of y] v(6) n show "n \<le> 3652059"
    by (simp add: days_before_year_step)
qed

lemma ord2ymd_year_bound:
  assumes "1 \<le> n" "n \<le> 3652059" "ord2ymd n = (y, m, d)"
  shows "y \<le> 9999"
proof (rule ccontr)
  assume "\<not> y \<le> 9999"
  then have "3652059 \<le> days_before_year y"
    using days_before_year_mono [of 10000 y] by (simp add: days_before_year_10000)
  moreover from ord2ymd_correct [OF assms(1,3)]
  have "ymd2ord y m d = n" "1 \<le> m" "m \<le> 12" "1 \<le> d" by simp_all
  moreover from this have "0 \<le> days_before_month y m"
    by (simp add: days_before_month_bounds(1))
  ultimately show False using assms(2) by (simp add: ymd2ord_def)
qed



lemma digit_char_inj:
  assumes "0 \<le> a" "a < 10" "0 \<le> b" "b < 10" "digit_char a = digit_char b"
  shows "a = b"
proof -
  have small: "(48 + x) mod 256 = 48 + x" if "0 \<le> x" "x < 10" for x :: int
    using that by (intro mod_pos_pos_trivial) simp_all
  from assms(5) have "(of_char (digit_char a) :: int) = of_char (digit_char b)"
    by (rule arg_cong)
  then have "(48 + a) mod 256 = (48 + b) mod 256"
    by (simp only: digit_char_def of_char_of)
  then have "48 + a = 48 + b"
    by (simp only: small [OF assms(1,2)] small [OF assms(3,4)])
  then show ?thesis by simp
qed


lemma decimal_digit_bounds:
  fixes x :: int
  shows "0 \<le> x mod 10" "x mod 10 < 10" "0 \<le> x div 10 mod 10" "x div 10 mod 10 < 10"
  by simp_all

lemma two_digits_eq_mod:
  assumes "two_digits a = two_digits b"
  shows "a mod 100 = b mod 100"
proof -
  from assms have hi: "digit_char (a div 10 mod 10) = digit_char (b div 10 mod 10)"
    and lo: "digit_char (a mod 10) = digit_char (b mod 10)"
    by (simp_all only: two_digits_def list.inject)
  have "a div 10 mod 10 = b div 10 mod 10"
    using decimal_digit_bounds(3,4) [of a] decimal_digit_bounds(3,4) [of b] hi
    by (rule digit_char_inj)
  moreover have "a mod 10 = b mod 10"
    using decimal_digit_bounds(1,2) [of a] decimal_digit_bounds(1,2) [of b] lo
    by (rule digit_char_inj)
  moreover have "x mod 100 = 10 * (x div 10 mod 10) + x mod 10" for x :: int
    using zmod_zmult2_eq [of 10 x 10] by simp
  ultimately show ?thesis by (simp only:)
qed

lemma two_digits_inj:
  assumes "0 \<le> a" "a < 100" "0 \<le> b" "b < 100" "two_digits a = two_digits b"
  shows "a = b"
proof -
  from assms(5) have "a mod 100 = b mod 100" by (rule two_digits_eq_mod)
  moreover have "a mod 100 = a" using assms(1,2) by (rule mod_pos_pos_trivial)
  moreover have "b mod 100 = b" using assms(3,4) by (rule mod_pos_pos_trivial)
  ultimately show ?thesis by (simp only:)
qed

lemma length_two_digits: "length (two_digits x) = 2"
  by (simp add: two_digits_def)

lemma four_digits_inj:
  assumes "0 \<le> a" "a < 10000" "0 \<le> b" "b < 10000" "four_digits a = four_digits b"
  shows "a = b"
proof -
  from assms(5) have "two_digits (a div 100) = two_digits (b div 100)"
    and low: "two_digits a = two_digits b"
    by (simp_all add: four_digits_def length_two_digits)
  moreover have "0 \<le> a div 100" "a div 100 < 100" "0 \<le> b div 100" "b div 100 < 100"
    using assms(1-4) by simp_all
  ultimately have hi: "a div 100 = b div 100" by (intro two_digits_inj)
  from low have "a mod 100 = b mod 100" by (rule two_digits_eq_mod)
  with hi have "100 * (a div 100) + a mod 100 = 100 * (b div 100) + b mod 100"
    by (simp only:)
  then show ?thesis by (simp only: mult_div_mod_eq)
qed


lemma length_four_digits: "length (four_digits x) = 4"
  by (simp add: four_digits_def length_two_digits)

lemma strftime_inj:
  assumes "1 \<le> a" "a \<le> 3652059" "1 \<le> b" "b \<le> 3652059" "strftime a = strftime b"
  shows "a = b"
proof -
  obtain y m d where A: "ord2ymd a = (y, m, d)" by (cases "ord2ymd a")
  obtain y' m' d' where B: "ord2ymd b = (y', m', d')" by (cases "ord2ymd b")
  from ord2ymd_correct [OF assms(1) A] ord2ymd_year_bound [OF assms(1,2) A]
  have a: "ymd2ord y m d = a" "0 \<le> y" "y < 10000" "0 \<le> m" "m < 100" "0 \<le> d" "d < 100"
    by simp_all
  from ord2ymd_correct [OF assms(3) B] ord2ymd_year_bound [OF assms(3,4) B]
  have b: "ymd2ord y' m' d' = b" "0 \<le> y'" "y' < 10000" "0 \<le> m'" "m' < 100" "0 \<le> d'" "d' < 100"
    by simp_all
  from assms(5) A B have e: "four_digits y = four_digits y'" "two_digits m = two_digits m'"
    "two_digits d = two_digits d'"
    by (simp_all add: strftime_def length_two_digits length_four_digits)
  have "y = y'" using a(2,3) b(2,3) e(1) by (rule four_digits_inj)
  moreover have "m = m'" using a(4,5) b(4,5) e(2) by (rule two_digits_inj)
  moreover have "d = d'" using a(6,7) b(6,7) e(3) by (rule two_digits_inj)
  ultimately show ?thesis using a(1) b(1) by simp
qed


lemma new_date_valid: "new_date y m d = Inr n \<Longrightarrow> valid_day n"
  by (simp add: valid_day_def new_date_bounds)

lemma strptime_date_valid:
  assumes "strptime_date s = Inr a"
  shows "valid_day a"
proof -
  from assms obtain y m d where "new_date y m d = Inr a"
    by (auto simp: strptime_date_def split: option.splits prod.splits)
  then show ?thesis by (rule new_date_valid)
qed

lemma strptime_datetime_valid:
  assumes "strptime_datetime s = Inr x"
  shows "valid_day (fst x)"
proof -
  from assms obtain y m d where "new_date y m d = Inr (fst x)"
    by (auto simp: strptime_datetime_def Let_def ebind_eq_Inr
        split: option.splits prod.splits if_splits)
  then show ?thesis by (rule new_date_valid)
qed

lemma read_transaction_valid:
  assumes "read_transaction float t = Inr e"
  shows "valid_day (fst e)"
proof -
  from assms obtain s dt where "strptime_datetime s = Inr dt" "fst e = fst dt"
    by (auto simp: read_transaction_def ebind_eq_Inr)
  then show ?thesis by (simp add: strptime_datetime_valid)
qed

lemma end_of_range_valid:
  assumes "end_of_range now end_date = Inr b" "valid_day now"
  shows "valid_day b"
  using assms
  by (auto simp: end_of_range_def strptime_date_valid split: option.splits if_splits)

lemma entries_valid:
  assumes "map (read_transaction float) txs = map Inr es"
  shows "\<forall>e\<in>set es. valid_day (fst e)"
proof
  fix e assume "e \<in> set es"
  then obtain i where i: "i < length es" "es ! i = e" by (auto simp: in_set_conv_nth)
  from assms have "length txs = length es" by (rule map_eq_imp_length_eq)
  with i assms have "read_transaction float (txs ! i) = Inr e"
    by (metis nth_map)
  then show "valid_day (fst e)" by (rule read_transaction_valid)
qed

lemma distinct_strftime:
  assumes "distinct days" "\<forall>d\<in>set days. valid_day d"
  shows "distinct (map strftime days)"
proof -
  have "inj_on strftime (set days)"
  proof (rule inj_onI)
    fix a b assume "a \<in> set days" "b \<in> set days" "strftime a = strftime b"
    with assms(2) show "a = b" by (auto simp: valid_day_def intro: strftime_inj)
  qed
  with assms(1) show ?thesis by (simp add: distinct_map)
qed

section \<open>Lemmas on the loop over the pages\<close>

lemma getitem_Inr: "getitem t k = Inr v \<longleftrightarrow> t k = Some v"
  by (simp add: getitem_def split: option.split)

lemma confirmed_Inr: "confirmed ts = Inr r \<Longrightarrow> r = filter is_confirmed ts"
proof (induction ts arbitrary: r)
  case Nil
  then show ?case by simp
next
  case (Cons t ts)
  from Cons.prems obtain flag rest where
    "getitem t ''PR_PR'' = Inr flag" "confirmed ts = Inr rest"
    "r = (if flag = ''r'' then t # rest else rest)"
    by (auto simp: ebind_eq_Inr)
  with Cons.IH [of rest] show ?case
    by (simp add: is_confirmed_def getitem_Inr)
qed

lemma confirmed_total:
  "\<forall>t\<in>set ts. t ''PR_PR'' \<noteq> None \<Longrightarrow> confirmed ts = Inr (filter is_confirmed ts)"
proof (induction ts)
  case Nil
  show ?case by simp
next
  case (Cons t ts)
  then obtain flag where "t ''PR_PR'' = Some flag" by auto
  with Cons show ?case
    by (simp add: getitem_def is_confirmed_def)
qed

lemma pages_upto_pages:
  "pages_upto n get a s e tok fid so_far env = Some y \<Longrightarrow> pages get a s e tok fid so_far env = Some y"
proof (induction n arbitrary: fid so_far env)
  case 0
  then show ?case by simp
next
  case (Suc n)
  show ?case
  proof (cases "page get a s e tok fid so_far env")
    case (Return r env')
    with Suc.prems show ?thesis by (subst pages.simps) simp
  next
    case (Again nxt so_far' env')
    with Suc.prems have "pages_upto n get a s e tok (Some nxt) so_far' env' = Some y" by simp
    then have "pages get a s e tok (Some nxt) so_far' env' = Some y" by (rule Suc.IH)
    with Again show ?thesis by (subst pages.simps) simp
  qed
qed

lemma pages_pages_upto:
  "pages get a s e tok fid so_far env = Some y \<Longrightarrow> \<exists>n. pages_upto n get a s e tok fid so_far env = Some y"
proof (induction rule: pages.raw_induct [rotated, consumes 1])
  case (1 pages' get a s e tok fid so_far env y)
  show ?case
  proof (cases "page get a s e tok fid so_far env")
    case (Return r env')
    with 1(2) have "pages_upto (Suc 0) get a s e tok fid so_far env = Some y" by simp
    then show ?thesis by blast
  next
    case (Again nxt so_far' env')
    with 1(2) have "pages' get a s e tok (Some nxt) so_far' env' = Some y" by simp
    then obtain n where "pages_upto n get a s e tok (Some nxt) so_far' env' = Some y"
      using 1(1) by blast
    with Again have "pages_upto (Suc n) get a s e tok fid so_far env = Some y" by simp
    then show ?thesis by blast
  qed
qed

lemma requests_get_eq:
  "requests_get get req env =
     (fst (get req (net env)), received req (fst (get req (net env))) (snd (get req (net env))) env)"
  by (simp add: requests_get_def received_def split: prod.split)

lemma received_simps [simp]:
  "net (received req data w env) = w"
  "exchanges (received req data w env) = exchanges env @ [(req, data)]"
  "logged (received req data w env) = logged env"
  "files (received req data w env) = files env"
  by (simp_all add: received_def)

lemma logging_simps [simp]:
  "net (logging l m env) = net env"
  "exchanges (logging l m env) = exchanges env"
  "logged (logging l m env) = logged env @ [(l, m)]"
  "files (logging l m env) = files env"
  by (simp_all add: logging_def)

lemma page_failure:
  assumes "get (page_request a s e tok fid) (net env) = (data, w)" "status data \<noteq> ''SUCCESS''"
  shows "page get a s e tok fid so_far env =
           Return (Inr so_far)
             (logging ERROR (Failed_to_fetch data) (received (page_request a s e tok fid) data w env))"
  using assms by (simp add: page_def requests_get_eq)

lemma page_raises:
  assumes "get (page_request a s e tok fid) (net env) = (data, w)" "status data = ''SUCCESS''"
    and "confirmed (transactions data) = Inl err"
  shows "page get a s e tok fid so_far env =
           Return (Inl err) (received (page_request a s e tok fid) data w env)"
  using assms by (simp add: page_def requests_get_eq)

lemma page_last:
  assumes "get (page_request a s e tok fid) (net env) = (data, w)" "status data = ''SUCCESS''"
    and "confirmed (transactions data) = Inr new" "\<not> exist_next_page data"
  shows "page get a s e tok fid so_far env =
           Return (Inr (so_far @ new))
             (logging INFO (Fetched_so_far (length (so_far @ new)))
                (received (page_request a s e tok fid) data w env))"
  using assms by (simp add: page_def requests_get_eq Let_def)

lemma page_more:
  assumes "get (page_request a s e tok fid) (net env) = (data, w)" "status data = ''SUCCESS''"
    and "confirmed (transactions data) = Inr new" "exist_next_page data"
  shows "page get a s e tok fid so_far env =
           Again (next_page_id data) (so_far @ new)
             (logging INFO (Fetched_so_far (length (so_far @ new)))
                (received (page_request a s e tok fid) data w env))"
  using assms by (simp add: page_def requests_get_eq Let_def)

lemma confirmed_of_simps [simp]:
  "confirmed_of [] = []"
  "confirmed_of (p # ps) = filter is_confirmed (transactions p) @ confirmed_of ps"
  "confirmed_of (ps @ qs) = confirmed_of ps @ confirmed_of qs"
  by (simp_all add: confirmed_of_def)

lemma pages_until_last:
  assumes "serves get (page_request a s e tok) fid (net env) (rs @ [r]) w'"
    and "\<forall>p\<in>set rs. status p = ''SUCCESS'' \<and> exist_next_page p"
    and "status r = ''SUCCESS''" "\<not> exist_next_page r"
    and "\<forall>p\<in>set (rs @ [r]). \<forall>t\<in>set (transactions p). t ''PR_PR'' \<noteq> None"
  shows "\<exists>env'. pages get a s e tok fid so_far env = Some (Inr (so_far @ confirmed_of (rs @ [r])), env')
           \<and> net env' = w'
           \<and> exchanges env' =
                exchanges env @ zip (requests_for (page_request a s e tok) fid (rs @ [r])) (rs @ [r])
           \<and> files env' = files env"
  using assms
proof (induction rs arbitrary: fid so_far env)
  case Nil
  let ?req = "page_request a s e tok fid"
  from Nil.prems(1) have g: "get ?req (net env) = (r, w')"
    by (cases "get ?req (net env)") simp
  from Nil.prems(5) have c: "confirmed (transactions r) = Inr (filter is_confirmed (transactions r))"
    by (simp add: confirmed_total)
  have "page get a s e tok fid so_far env =
          Return (Inr (so_far @ filter is_confirmed (transactions r)))
            (logging INFO (Fetched_so_far (length (so_far @ filter is_confirmed (transactions r))))
               (received ?req r w' env))"
    using g Nil.prems(3) c Nil.prems(4) by (rule page_last)
  then show ?case
    by (subst pages.simps) simp
next
  case (Cons p rs)
  let ?req = "page_request a s e tok fid"
  let ?new = "filter is_confirmed (transactions p)"
  obtain w1 where g: "get ?req (net env) = (p, w1)"
    and rest: "serves get (page_request a s e tok) (Some (next_page_id p)) w1 (rs @ [r]) w'"
    using Cons.prems(1) by (cases "get ?req (net env)") simp
  let ?env1 = "logging INFO (Fetched_so_far (length (so_far @ ?new))) (received ?req p w1 env)"
  from Cons.prems(5) have c: "confirmed (transactions p) = Inr ?new"
    by (simp add: confirmed_total)
  have st: "status p = ''SUCCESS''" and more: "exist_next_page p"
    using Cons.prems(2) by simp_all
  have step: "page get a s e tok fid so_far env = Again (next_page_id p) (so_far @ ?new) ?env1"
    using g st c more by (rule page_more)
  have "serves get (page_request a s e tok) (Some (next_page_id p)) (net ?env1) (rs @ [r]) w'"
    using rest by simp
  moreover have "\<forall>p\<in>set rs. status p = ''SUCCESS'' \<and> exist_next_page p"
    using Cons.prems(2) by simp
  moreover have "\<forall>p\<in>set (rs @ [r]). \<forall>t\<in>set (transactions p). t ''PR_PR'' \<noteq> None"
    using Cons.prems(5) by simp
  ultimately obtain env' where
    env': "pages get a s e tok (Some (next_page_id p)) (so_far @ ?new) ?env1
             = Some (Inr ((so_far @ ?new) @ confirmed_of (rs @ [r])), env')"
      "net env' = w'"
      "exchanges env' = exchanges ?env1
          @ zip (requests_for (page_request a s e tok) (Some (next_page_id p)) (rs @ [r])) (rs @ [r])"
      "files env' = files ?env1"
    using Cons.IH [of "Some (next_page_id p)" ?env1 "so_far @ ?new"] Cons.prems(3,4) by blast
  have "pages get a s e tok fid so_far env
          = pages get a s e tok (Some (next_page_id p)) (so_far @ ?new) ?env1"
    using step by (subst pages.simps) simp
  with env' show ?case by simp
qed

lemma pages_until_failure:
  assumes "serves get (page_request a s e tok) fid (net env) (rs @ [r]) w'"
    and "\<forall>p\<in>set rs. status p = ''SUCCESS'' \<and> exist_next_page p
           \<and> (\<forall>t\<in>set (transactions p). t ''PR_PR'' \<noteq> None)"
    and "status r \<noteq> ''SUCCESS''"
  shows "\<exists>env' infos. pages get a s e tok fid so_far env = Some (Inr (so_far @ confirmed_of rs), env')
           \<and> net env' = w'
           \<and> exchanges env' =
                exchanges env @ zip (requests_for (page_request a s e tok) fid (rs @ [r])) (rs @ [r])
           \<and> files env' = files env
           \<and> logged env' = logged env @ infos @ [(ERROR, Failed_to_fetch r)]
           \<and> map fst infos = replicate (length rs) INFO"
  using assms
proof (induction rs arbitrary: fid so_far env)
  case Nil
  let ?req = "page_request a s e tok fid"
  from Nil.prems(1) have g: "get ?req (net env) = (r, w')"
    by (cases "get ?req (net env)") simp
  have "page get a s e tok fid so_far env =
          Return (Inr so_far) (logging ERROR (Failed_to_fetch r) (received ?req r w' env))"
    using g Nil.prems(3) by (rule page_failure)
  then have "pages get a s e tok fid so_far env =
          Some (Inr so_far, logging ERROR (Failed_to_fetch r) (received ?req r w' env))"
    by (subst pages.simps) simp
  then show ?case by simp
next
  case (Cons p rs)
  let ?req = "page_request a s e tok fid"
  let ?new = "filter is_confirmed (transactions p)"
  obtain w1 where g: "get ?req (net env) = (p, w1)"
    and rest: "serves get (page_request a s e tok) (Some (next_page_id p)) w1 (rs @ [r]) w'"
    using Cons.prems(1) by (cases "get ?req (net env)") simp
  let ?env1 = "logging INFO (Fetched_so_far (length (so_far @ ?new))) (received ?req p w1 env)"
  from Cons.prems(2) have c: "confirmed (transactions p) = Inr ?new"
    by (simp add: confirmed_total)
  have st: "status p = ''SUCCESS''" and more: "exist_next_page p"
    using Cons.prems(2) by simp_all
  have step: "page get a s e tok fid so_far env = Again (next_page_id p) (so_far @ ?new) ?env1"
    using g st c more by (rule page_more)
  have "serves get (page_request a s e tok) (Some (next_page_id p)) (net ?env1) (rs @ [r]) w'"
    using rest by simp
  moreover have "\<forall>p\<in>set rs. status p = ''SUCCESS'' \<and> exist_next_page p
                   \<and> (\<forall>t\<in>set (transactions p). t ''PR_PR'' \<noteq> None)"
    using Cons.prems(2) by simp
  ultimately obtain env' infos where
    env': "pages get a s e tok (Some (next_page_id p)) (so_far @ ?new) ?env1
             = Some (Inr ((so_far @ ?new) @ confirmed_of rs), env')"
      "net env' = w'"
      "exchanges env' = exchanges ?env1
          @ zip (requests_for (page_request a s e tok) (Some (next_page_id p)) (rs @ [r])) (rs @ [r])"
      "files env' = files ?env1"
      "logged env' = logged ?env1 @ infos @ [(ERROR, Failed_to_fetch r)]"
      "map fst infos = replicate (length rs) INFO"
    using Cons.IH [of "Some (next_page_id p)" ?env1 "so_far @ ?new"] Cons.prems(3) by blast
  let ?infos = "(INFO, Fetched_so_far (length (so_far @ ?new))) # infos"
  have "pages get a s e tok fid so_far env
          = pages get a s e tok (Some (next_page_id p)) (so_far @ ?new) ?env1"
    using step by (subst pages.simps) simp
  with env' have "pages get a s e tok fid so_far env = Some (Inr (so_far @ confirmed_of (p # rs)), env')
           \<and> net env' = w'
           \<and> exchanges env' =
                exchanges env @ zip (requests_for (page_request a s e tok) fid ((p # rs) @ [r])) ((p # rs) @ [r])
           \<and> files env' = files env
           \<and> logged env' = logged env @ ?infos @ [(ERROR, Failed_to_fetch r)]
           \<and> map fst ?infos = replicate (length (p # rs)) INFO"
    by simp
  then show ?case by blast
qed

lemma pages_upto_trace:
  "pages_upto n get a s e tok fid so_far env = Some (Inr out, env') \<Longrightarrow>
     \<exists>xs. exchanges env' = exchanges env @ xs
        \<and> out = so_far @ confirmed_of (filter successful (map snd xs))"
proof (induction n arbitrary: fid so_far env)
  case 0
  then show ?case by simp
next
  case (Suc n)
  let ?req = "page_request a s e tok fid"
  obtain data w where g: "get ?req (net env) = (data, w)"
    by (cases "get ?req (net env)")
  let ?env1 = "received ?req data w env"
  show ?case
  proof (cases "status data = ''SUCCESS''")
    case False
    with g have "page get a s e tok fid so_far env =
        Return (Inr so_far) (logging ERROR (Failed_to_fetch data) ?env1)"
      by (rule page_failure)
    with Suc.prems have "out = so_far" "env' = logging ERROR (Failed_to_fetch data) ?env1"
      by simp_all
    then have "exchanges env' = exchanges env @ [(?req, data)]
        \<and> out = so_far @ confirmed_of (filter successful (map snd [(?req, data)]))"
      using False by (simp add: successful_def)
    then show ?thesis by blast
  next
    case True
    show ?thesis
    proof (cases "confirmed (transactions data)")
      case (Inl err)
      with g True have "page get a s e tok fid so_far env = Return (Inl err) ?env1"
        by (rule page_raises)
      with Suc.prems show ?thesis by simp
    next
      case (Inr new)
      then have new: "new = filter is_confirmed (transactions data)"
        by (rule confirmed_Inr)
      let ?env2 = "logging INFO (Fetched_so_far (length (so_far @ new))) ?env1"
      show ?thesis
      proof (cases "exist_next_page data")
        case False
        with g True Inr have "page get a s e tok fid so_far env = Return (Inr (so_far @ new)) ?env2"
          by (rule page_last)
        with Suc.prems have "out = so_far @ new" "env' = ?env2" by auto
        then have "exchanges env' = exchanges env @ [(?req, data)]
            \<and> out = so_far @ confirmed_of (filter successful (map snd [(?req, data)]))"
          using True new by (simp add: successful_def)
        then show ?thesis by blast
      next
        case more: True
        with g True Inr have "page get a s e tok fid so_far env =
            Again (next_page_id data) (so_far @ new) ?env2"
          by (rule page_more)
        with Suc.prems have
          "pages_upto n get a s e tok (Some (next_page_id data)) (so_far @ new) ?env2 = Some (Inr out, env')"
          by simp
        then obtain xs where xs: "exchanges env' = exchanges ?env2 @ xs"
          "out = (so_far @ new) @ confirmed_of (filter successful (map snd xs))"
          using Suc.IH by blast
        then have "exchanges env' = exchanges env @ ((?req, data) # xs)
            \<and> out = so_far @ confirmed_of (filter successful (map snd ((?req, data) # xs)))"
          using True new by (simp add: successful_def)
        then show ?thesis by blast
      qed
    qed
  qed
qed

lemma page_files:
  "page get a s e tok fid so_far env = Return r env' \<Longrightarrow> files env' = files env"
  "page get a s e tok fid so_far env = Again nxt so_far' env' \<Longrightarrow> files env' = files env"
  by (auto simp: page_def requests_get_eq Let_def split: if_splits sum.splits)

lemma pages_upto_files:
  "pages_upto n get a s e tok fid so_far env = Some (r, env') \<Longrightarrow> files env' = files env"
proof (induction n arbitrary: fid so_far env)
  case 0
  then show ?case by simp
next
  case (Suc n)
  show ?case
  proof (cases "page get a s e tok fid so_far env")
    case (Return r1 env1)
    with Suc.prems show ?thesis by (simp add: page_files(1))
  next
    case (Again nxt so_far' env1)
    with Suc.prems have "pages_upto n get a s e tok (Some nxt) so_far' env1 = Some (r, env')"
      by simp
    then have "files env' = files env1" by (rule Suc.IH)
    with Again show ?thesis by (simp add: page_files(2))
  qed
qed

lemma get_transactions_files:
  assumes "get_transactions get a s e tok env = Some (r, env')"
  shows "files env' = files env"
proof -
  from assms obtain n where "pages_upto n get a s e tok None [] env = Some (r, env')"
    unfolding get_transactions_def by (auto dest: pages_pages_upto)
  then show ?thesis by (rule pages_upto_files)
qed

section \<open>The example data, evaluated\<close>

lemma day_2024_03_01: "strptime_date ''01-03-2024'' = Inr 738946" by code_simp

lemma day_2024_03_07: "strptime_date ''07-03-2024'' = Inr 738952" by code_simp

lemma end_2024_03_02: "end_of_range today (Some ''02-03-2024'') = Inr 738947" by code_simp

lemma end_2024_03_03: "end_of_range today (Some ''03-03-2024'') = Inr 738948" by code_simp

lemma read_tx_credit: "read_transaction decimal tx_credit = Inr (738946, 100, 2700, ''C'')" by code_simp

lemma read_tx_debit: "read_transaction decimal tx_debit = Inr (738947, 200, 5400, ''D'')" by code_simp

lemma read_tx_late: "read_transaction decimal tx_late = Inr (738950, 50, 1350, ''D'')" by code_simp

lemma read_tx_pending: "read_transaction decimal tx_pending = Inr (738946, 15 / 2, 405 / 2, ''C'')"
  by code_simp

lemma read_example_transactions:
  "map (read_transaction decimal) example_transactions =
     map Inr [(738946, 100, 2700, ''C''), (738947, 200, 5400, ''D'')]"
  by (simp add: example_transactions_def read_tx_credit read_tx_debit)

lemma example_daily_amounts:
  "calculate_daily_amounts decimal today [tx_credit, tx_debit] ''01-03-2024'' (Some ''02-03-2024'') =
     Inr [\<lparr>date = ''2024-03-01'', money_in = 100, money_out = 0, money_in_UAH = 2700, money_out_UAH = 0\<rparr>,
          \<lparr>date = ''2024-03-02'', money_in = 0, money_out = 200, money_in_UAH = 0, money_out_UAH = 5400\<rparr>]"
  by code_simp

lemma lower_json: "lower ''json'' = ''json''"
  by code_simp

lemma no_account_name: "tx_credit ''AUT_MY_NAM'' = None"
  by (simp add: tx_credit_def)

lemma flags:
  "tx_credit ''PR_PR'' = Some ''r''" "tx_debit ''PR_PR'' = Some ''r''"
  "tx_pending ''PR_PR'' = Some ''p''"
  by (simp_all add: tx_credit_def tx_debit_def tx_pending_def)

lemma is_confirmed_examples:
  "is_confirmed tx_credit" "is_confirmed tx_debit" "\<not> is_confirmed tx_pending"
  by (simp_all add: is_confirmed_def flags)

lemma start_world_simps [simp]:
  "net (start_world w) = w" "exchanges (start_world w) = []"
  "logged (start_world w) = []" "files (start_world w) = Map.empty"
  by (simp_all add: start_world_def)

section \<open>The claims\<close>

text \<open>
  Claim C1, as amended.  Take a range whose end is not before its start, a clock that
  shows a day of the calendar, and transactions that are all read without error.  Then
  the function returns; the dates of its records are those of a strictly ascending
  list of days and no date occurs twice; the days are every day of the range and every
  day of a transaction and nothing else.  When every transaction falls inside the
  range, these days are exactly the days of the range and there are as many records as
  the range has days.
\<close>

theorem one_record_per_day:
  assumes "strptime_date start_date = Inr a" and "end_of_range now end_date = Inr b"
    and "a \<le> b" and "map (read_transaction float) txs = map Inr es" and "valid_day now"
  shows "\<exists>out days. calculate_daily_amounts float now txs start_date end_date = Inr out
           \<and> map date out = map strftime days
           \<and> sorted_wrt (<) days
           \<and> distinct (map date out)
           \<and> set days = {a..b} \<union> fst ` set es
           \<and> (fst ` set es \<subseteq> {a..b} \<longrightarrow> days = [a..b] \<and> int (length out) = b - a + 1)"
proof -
  let ?days = "sorted_list_of_set (fst ` set es \<union> {a..b})"
  let ?out = "map (daily_record es) ?days"
  have "calculate_daily_amounts float now txs start_date end_date = Inr ?out"
    using assms(1,2,4) by (rule calculate_daily_amounts_eq)
  moreover have dates: "map date ?out = map strftime ?days"
    by (simp add: date_daily_record)
  moreover have "sorted_wrt (<) ?days"
    by (simp add: strict_sorted_iff)
  moreover have "distinct (map date ?out)"
  proof -
    have "valid_day a" using assms(1) by (rule strptime_date_valid)
    moreover have "valid_day b" using assms(2,5) by (rule end_of_range_valid)
    ultimately have "\<forall>d\<in>{a..b}. valid_day d" by (simp add: valid_day_def)
    moreover have "\<forall>e\<in>set es. valid_day (fst e)" using assms(4) by (rule entries_valid)
    ultimately have "\<forall>d\<in>set ?days. valid_day d" by auto
    then have "distinct (map strftime ?days)" by (intro distinct_strftime) simp_all
    then show ?thesis by (simp only: dates)
  qed
  moreover have "set ?days = {a..b} \<union> fst ` set es"
    by auto
  moreover have "?days = [a..b] \<and> int (length ?out) = b - a + 1" if "fst ` set es \<subseteq> {a..b}"
  proof -
    from that have "fst ` set es \<union> {a..b} = {a..b}" by auto
    then have "?days = [a..b]" by (simp add: sorted_list_of_set_upto)
    then show ?thesis using assms(3) by simp
  qed
  ultimately show ?thesis by blast
qed

text \<open>The two transactions of the test suite, in the range 01-03-2024 to 02-03-2024.\<close>

theorem one_record_per_day_witness:
  "valid_day today
   \<and> (\<exists>out. calculate_daily_amounts decimal today example_transactions ''01-03-2024'' (Some ''02-03-2024'')
               = Inr out
          \<and> map date out = [''2024-03-01'', ''2024-03-02''] \<and> length out = 2
          \<and> distinct (map date out))"
proof -
  have le: "(738946::int) \<le> 738947" by simp
  have v: "valid_day today" by (simp add: valid_day_def today_def)
  have inside: "fst ` set [(738946::int, 100::rat, 2700::rat, ''C''), (738947, 200, 5400, ''D'')]
      \<subseteq> {738946..738947}" by simp
  have s: "map strftime [738946..738947] = [''2024-03-01'', ''2024-03-02'']" by code_simp
  have "\<exists>out days. calculate_daily_amounts decimal today example_transactions ''01-03-2024''
             (Some ''02-03-2024'') = Inr out
           \<and> map date out = map strftime days
           \<and> sorted_wrt (<) days
           \<and> distinct (map date out)
           \<and> set days = {738946..738947}
                 \<union> fst ` set [(738946::int, 100::rat, 2700::rat, ''C''), (738947, 200, 5400, ''D'')]
           \<and> (fst ` set [(738946::int, 100::rat, 2700::rat, ''C''), (738947, 200, 5400, ''D'')]
                 \<subseteq> {738946..738947}
                \<longrightarrow> days = [738946..738947] \<and> int (length out) = 738947 - 738946 + 1)"
    by (rule one_record_per_day [OF day_2024_03_01 end_2024_03_02 le read_example_transactions v])
  then obtain out days where
    out: "calculate_daily_amounts decimal today example_transactions ''01-03-2024'' (Some ''02-03-2024'')
            = Inr out"
    and dates: "map date out = map strftime days"
    and dist: "distinct (map date out)"
    and range: "fst ` set [(738946::int, 100::rat, 2700::rat, ''C''), (738947, 200, 5400, ''D'')]
                 \<subseteq> {738946..738947}
                \<longrightarrow> days = [738946..738947] \<and> int (length out) = 738947 - 738946 + 1"
    by (elim exE conjE)
  from range inside have days: "days = [738946..738947]"
    and len: "int (length out) = 738947 - 738946 + 1"
    by (simp_all only: simp_thms)
  from dates have "map date out = [''2024-03-01'', ''2024-03-02'']"
    by (simp only: days s)
  moreover from len have "length out = 2" by simp
  ultimately have "map date out = [''2024-03-01'', ''2024-03-02'']" "length out = 2" .
  with out dist have "\<exists>out. calculate_daily_amounts decimal today example_transactions ''01-03-2024''
               (Some ''02-03-2024'') = Inr out
          \<and> map date out = [''2024-03-01'', ''2024-03-02''] \<and> length out = 2
          \<and> distinct (map date out)"
    by (intro exI conjI)
  with v show ?thesis by (rule conjI)
qed

text \<open>
  Claim C1 as stated fails: the range 01-03-2024 to 02-03-2024 has two days, and with
  one transaction of 05-03-2024 the result has three records and no record for the
  third and the fourth of March.
\<close>

theorem transaction_outside_range_counterexample:
  "strptime_date ''01-03-2024'' = Inr 738946
   \<and> end_of_range today (Some ''02-03-2024'') = Inr 738947
   \<and> calculate_daily_amounts decimal today [tx_late] ''01-03-2024'' (Some ''02-03-2024'') =
       Inr [\<lparr>date = ''2024-03-01'', money_in = 0, money_out = 0, money_in_UAH = 0, money_out_UAH = 0\<rparr>,
            \<lparr>date = ''2024-03-02'', money_in = 0, money_out = 0, money_in_UAH = 0, money_out_UAH = 0\<rparr>,
            \<lparr>date = ''2024-03-05'', money_in = 0, money_out = 50, money_in_UAH = 0, money_out_UAH = 1350\<rparr>]
   \<and> (3::int) \<noteq> 738947 - 738946 + 1"
  by code_simp

text \<open>
  Claim C2.  When the transactions are all read without error, the record of a day
  has in \<open>money_in\<close> the amounts \<open>SUM\<close> of the transactions of that calendar day
  with the direction code \<open>C\<close>, added one after the other, in the order of the
  transactions, to the \<open>0\<close> the field starts from, and in \<open>money_in_UAH\<close> their
  amounts \<open>SUM_E\<close> added in the same way; \<open>money_out\<close> and \<open>money_out_UAH\<close> hold
  the same for the transactions of that day with any other code.  So an amount goes to
  the inflow fields of its day when the code is \<open>C\<close> and to the outflow fields of its
  day otherwise, and nowhere else.  This holds for every type of numbers, every
  \<open>float\<close> and every addition: no law of \<open>+\<close> is used.
\<close>

theorem amounts_routed_by_direction:
  fixes float :: "string \<Rightarrow> error + 'f::{zero,plus}"
  assumes "strptime_date start_date = Inr a" and "end_of_range now end_date = Inr b"
    and "map (read_transaction float) txs = map Inr es"
  shows "calculate_daily_amounts float now txs start_date end_date =
           Inr (map (\<lambda>d. \<lparr>date = strftime d,
                           money_in = foldl (+) 0 (map amount (credits es d)),
                           money_out = foldl (+) 0 (map amount (debits es d)),
                           money_in_UAH = foldl (+) 0 (map amount_uah (credits es d)),
                           money_out_UAH = foldl (+) 0 (map amount_uah (debits es d))\<rparr>)
                  (sorted_list_of_set (fst ` set es \<union> {a..b})))"
  using calculate_daily_amounts_eq [OF assms] by (simp add: daily_record_def [abs_def])

text \<open>The scenario of the test suite: 100 in on the first of March, 200 out on the second.\<close>

theorem amounts_routed_by_direction_witness:
  "map (read_transaction decimal) example_transactions =
      map Inr [(738946, 100, 2700, ''C''), (738947, 200, 5400, ''D'')]
   \<and> calculate_daily_amounts decimal today example_transactions ''01-03-2024'' (Some ''02-03-2024'') =
       Inr [\<lparr>date = ''2024-03-01'', money_in = 100, money_out = 0, money_in_UAH = 2700, money_out_UAH = 0\<rparr>,
            \<lparr>date = ''2024-03-02'', money_in = 0, money_out = 200, money_in_UAH = 0, money_out_UAH = 5400\<rparr>]"
proof -
  have r: "map (\<lambda>d. \<lparr>date = strftime d,
            money_in = foldl (+) 0 (map amount (credits [(738946, 100, 2700, ''C''), (738947, 200, 5400, ''D'')] d)),
            money_out = foldl (+) 0 (map amount (debits [(738946, 100, 2700, ''C''), (738947, 200, 5400, ''D'')] d)),
            money_in_UAH = foldl (+) 0 (map amount_uah (credits [(738946, 100, 2700, ''C''), (738947, 200, 5400, ''D'')] d)),
            money_out_UAH = foldl (+) 0 (map amount_uah (debits [(738946, 100, 2700, ''C''), (738947, 200, 5400, ''D'')] d))\<rparr>)
          (sorted_list_of_set (fst ` set [(738946, 100, 2700, ''C''), (738947, 200, 5400, ''D'')] \<union> {738946..738947}))
       = [\<lparr>date = ''2024-03-01'', money_in = 100 :: rat, money_out = 0, money_in_UAH = 2700, money_out_UAH = 0\<rparr>,
          \<lparr>date = ''2024-03-02'', money_in = 0, money_out = 200, money_in_UAH = 0, money_out_UAH = 5400\<rparr>]"
    by code_simp
  from amounts_routed_by_direction [OF day_2024_03_01 end_2024_03_02 read_example_transactions]
    read_example_transactions
  show ?thesis unfolding r by simp
qed

text \<open>
  Claim C3.  Let the server answer the successive requests with the pages \<open>rs\<close>, all
  successful and all announcing a next page, and then with a successful page \<open>r\<close> that
  announces none.  Then \<open>get_transactions\<close> returns the confirmed transactions of
  these pages, page after page, and has made exactly these exchanges: one request for
  each page and none after \<open>r\<close>.  With \<open>rs\<close> empty this is the single page answered to
  a single request.
\<close>

theorem get_transactions_concatenates_pages:
  assumes "serves get (page_request account_number start_date end_date token) None (net env)
             (rs @ [r]) w'"
    and "\<forall>p\<in>set rs. status p = ''SUCCESS'' \<and> exist_next_page p"
    and "status r = ''SUCCESS''" and "\<not> exist_next_page r"
    and "\<forall>p\<in>set (rs @ [r]). \<forall>t\<in>set (transactions p). t ''PR_PR'' \<noteq> None"
  shows "\<exists>env'. get_transactions get account_number start_date end_date token env =
                   Some (Inr (concat (map (\<lambda>p. filter (\<lambda>t. t ''PR_PR'' = Some ''r'') (transactions p))
                                        (rs @ [r]))), env')
           \<and> net env' = w'
           \<and> exchanges env' = exchanges env
                @ zip (requests_for (page_request account_number start_date end_date token) None
                         (rs @ [r])) (rs @ [r])"
proof -
  from pages_until_last [OF assms, of "[]"]
  obtain env' where "pages get account_number start_date end_date token None [] env =
        Some (Inr ([] @ confirmed_of (rs @ [r])), env')"
    "net env' = w'"
    "exchanges env' = exchanges env
        @ zip (requests_for (page_request account_number start_date end_date token) None (rs @ [r]))
            (rs @ [r])"
    by (elim exE conjE)
  then show ?thesis
    by (simp add: get_transactions_def confirmed_of_def is_confirmed_def [abs_def])
qed

text \<open>
  The mock of the test suite (one page, one request), and two pages followed by an
  answer that is never asked for.
\<close>

theorem get_transactions_concatenates_pages_witness:
  "(\<exists>env'. get_transactions scripted ''123456'' ''01-03-2024'' ''02-03-2024'' ''token''
              (start_world [single_page]) = Some (Inr [tx_credit, tx_debit], env')
         \<and> length (exchanges env') = 1)
   \<and> (\<exists>env'. get_transactions scripted ''123456'' ''01-03-2024'' ''02-03-2024'' ''token''
              (start_world [page_one, page_two, failure_page]) = Some (Inr [tx_credit, tx_debit], env')
         \<and> length (exchanges env') = 2 \<and> net env' = [failure_page])"
proof -
  let ?req = "page_request ''123456'' ''01-03-2024'' ''02-03-2024'' ''token''"
  have "serves scripted ?req None (net (start_world [single_page])) ([] @ [single_page]) []"
    by simp
  moreover have "\<forall>p\<in>set []. status p = ''SUCCESS'' \<and> exist_next_page p" by simp
  moreover have "status single_page = ''SUCCESS''" "\<not> exist_next_page single_page"
    by (simp_all add: single_page_def)
  moreover have "\<forall>p\<in>set ([] @ [single_page]). \<forall>t\<in>set (transactions p). t ''PR_PR'' \<noteq> None"
    by (simp add: single_page_def example_transactions_def flags)
  ultimately have "\<exists>env'. get_transactions scripted ''123456'' ''01-03-2024'' ''02-03-2024'' ''token''
       (start_world [single_page]) =
        Some (Inr (concat (map (\<lambda>p. filter (\<lambda>t. t ''PR_PR'' = Some ''r'') (transactions p))
                                        ([] @ [single_page]))), env')
           \<and> net env' = []
           \<and> exchanges env' = exchanges (start_world [single_page])
                @ zip (requests_for ?req None ([] @ [single_page])) ([] @ [single_page])"
    by (rule get_transactions_concatenates_pages)
  then have one: "\<exists>env'. get_transactions scripted ''123456'' ''01-03-2024'' ''02-03-2024'' ''token''
              (start_world [single_page]) = Some (Inr [tx_credit, tx_debit], env')
         \<and> length (exchanges env') = 1"
    by (auto simp: single_page_def example_transactions_def flags)
  have "serves scripted ?req None (net (start_world [page_one, page_two, failure_page]))
          ([page_one] @ [page_two]) [failure_page]"
    by simp
  moreover have "\<forall>p\<in>set [page_one]. status p = ''SUCCESS'' \<and> exist_next_page p"
    by (simp add: page_one_def)
  moreover have "status page_two = ''SUCCESS''" "\<not> exist_next_page page_two"
    by (simp_all add: page_two_def)
  moreover have "\<forall>p\<in>set ([page_one] @ [page_two]). \<forall>t\<in>set (transactions p). t ''PR_PR'' \<noteq> None"
    by (simp add: page_one_def page_two_def flags)
  ultimately have "\<exists>env'. get_transactions scripted ''123456'' ''01-03-2024'' ''02-03-2024'' ''token''
       (start_world [page_one, page_two, failure_page]) =
        Some (Inr (concat (map (\<lambda>p. filter (\<lambda>t. t ''PR_PR'' = Some ''r'') (transactions p))
                                        ([page_one] @ [page_two]))), env')
           \<and> net env' = [failure_page]
           \<and> exchanges env' = exchanges (start_world [page_one, page_two, failure_page])
                @ zip (requests_for ?req None ([page_one] @ [page_two])) ([page_one] @ [page_two])"
    by (rule get_transactions_concatenates_pages)
  then have two: "\<exists>env'. get_transactions scripted ''123456'' ''01-03-2024'' ''02-03-2024'' ''token''
              (start_world [page_one, page_two, failure_page]) = Some (Inr [tx_credit, tx_debit], env')
         \<and> length (exchanges env') = 2 \<and> net env' = [failure_page]"
    by (auto simp: page_one_def page_two_def flags)
  from one two show ?thesis by (rule conjI)
qed

text \<open>
  Claim C4.  Let the server answer with the successful pages \<open>rs\<close>, each announcing a
  next page, and then with an answer \<open>r\<close> whose status is not \<open>SUCCESS\<close>.  Then
  \<open>get_transactions\<close> returns a list and no exception: the confirmed transactions of
  the pages \<open>rs\<close>, which is the empty list when the first answer is the failure.  It
  stops at \<open>r\<close>, and the last record of its log is the error about \<open>r\<close>, after one
  information record for each page.
\<close>

theorem get_transactions_failure_returns_partial:
  assumes "serves get (page_request account_number start_date end_date token) None (net env)
             (rs @ [r]) w'"
    and "\<forall>p\<in>set rs. status p = ''SUCCESS'' \<and> exist_next_page p
           \<and> (\<forall>t\<in>set (transactions p). t ''PR_PR'' \<noteq> None)"
    and "status r \<noteq> ''SUCCESS''"
  shows "\<exists>env' infos. get_transactions get account_number start_date end_date token env =
                   Some (Inr (concat (map (\<lambda>p. filter (\<lambda>t. t ''PR_PR'' = Some ''r'') (transactions p))
                                        rs)), env')
           \<and> net env' = w'
           \<and> map snd (exchanges env') = map snd (exchanges env) @ rs @ [r]
           \<and> logged env' = logged env @ infos @ [(ERROR, Failed_to_fetch r)]
           \<and> map fst infos = replicate (length rs) INFO"
proof -
  let ?req = "page_request account_number start_date end_date token"
  from pages_until_failure [OF assms, of "[]"]
  obtain env' infos where *: "pages get account_number start_date end_date token None [] env =
        Some (Inr ([] @ confirmed_of rs), env')"
    "net env' = w'"
    "exchanges env' = exchanges env @ zip (requests_for ?req None (rs @ [r])) (rs @ [r])"
    "logged env' = logged env @ infos @ [(ERROR, Failed_to_fetch r)]"
    "map fst infos = replicate (length rs) INFO"
    by (elim exE conjE)
  have "length (requests_for ?req fid ps) = length ps" for fid ps
    by (induction ps arbitrary: fid) simp_all
  then have "map snd (zip (requests_for ?req None (rs @ [r])) (rs @ [r])) = rs @ [r]"
    by (simp only: map_snd_zip)
  with * have "get_transactions get account_number start_date end_date token env =
                   Some (Inr (concat (map (\<lambda>p. filter (\<lambda>t. t ''PR_PR'' = Some ''r'') (transactions p))
                                        rs)), env')
           \<and> net env' = w'
           \<and> map snd (exchanges env') = map snd (exchanges env) @ rs @ [r]
           \<and> logged env' = logged env @ infos @ [(ERROR, Failed_to_fetch r)]
           \<and> map fst infos = replicate (length rs) INFO"
    by (simp add: get_transactions_def confirmed_of_def is_confirmed_def [abs_def])
  then show ?thesis by blast
qed

text \<open>A failure as the first answer, and a failure after one page.\<close>

theorem get_transactions_failure_returns_partial_witness:
  "(\<exists>env'. get_transactions scripted ''123456'' ''01-03-2024'' ''02-03-2024'' ''token''
              (start_world [failure_page, single_page]) = Some (Inr [], env')
         \<and> logged env' = [(ERROR, Failed_to_fetch failure_page)]
         \<and> map snd (exchanges env') = [failure_page])
   \<and> (\<exists>env' info. get_transactions scripted ''123456'' ''01-03-2024'' ''02-03-2024'' ''token''
              (start_world [page_one, failure_page]) = Some (Inr [tx_credit], env')
         \<and> logged env' = [(INFO, info), (ERROR, Failed_to_fetch failure_page)]
         \<and> map snd (exchanges env') = [page_one, failure_page])"
proof -
  let ?req = "page_request ''123456'' ''01-03-2024'' ''02-03-2024'' ''token''"
  have failed: "status failure_page \<noteq> ''SUCCESS''" by (simp add: failure_page_def)
  have s1: "serves scripted ?req None (net (start_world [failure_page, single_page]))
          ([] @ [failure_page]) [single_page]"
    by simp
  have g1: "\<forall>p\<in>set ([]::json_data list). status p = ''SUCCESS'' \<and> exist_next_page p
           \<and> (\<forall>t\<in>set (transactions p). t ''PR_PR'' \<noteq> None)" by simp
  from get_transactions_failure_returns_partial [OF s1 g1 failed] obtain env1 infos1 where
    r1: "get_transactions scripted ''123456'' ''01-03-2024'' ''02-03-2024'' ''token''
       (start_world [failure_page, single_page]) =
        Some (Inr (concat (map (\<lambda>p. filter (\<lambda>t. t ''PR_PR'' = Some ''r'') (transactions p))
             ([]::json_data list))), env1)"
    and x1: "map snd (exchanges env1) = map snd (exchanges (start_world [failure_page, single_page]))
                 @ ([]::json_data list) @ [failure_page]"
    and l1: "logged env1 = logged (start_world [failure_page, single_page]) @ infos1
                 @ [(ERROR, Failed_to_fetch failure_page)]"
    and i1: "map fst infos1 = replicate (length ([]::json_data list)) INFO"
    by (elim exE conjE)
  from i1 have "infos1 = []" by simp
  with r1 x1 l1 have "get_transactions scripted ''123456'' ''01-03-2024'' ''02-03-2024'' ''token''
              (start_world [failure_page, single_page]) = Some (Inr [], env1)
         \<and> logged env1 = [(ERROR, Failed_to_fetch failure_page)]
         \<and> map snd (exchanges env1) = [failure_page]"
    by simp
  then have first: "\<exists>env'. get_transactions scripted ''123456'' ''01-03-2024'' ''02-03-2024'' ''token''
              (start_world [failure_page, single_page]) = Some (Inr [], env')
         \<and> logged env' = [(ERROR, Failed_to_fetch failure_page)]
         \<and> map snd (exchanges env') = [failure_page]"
    by (rule exI)
  have s2: "serves scripted ?req None (net (start_world [page_one, failure_page]))
          ([page_one] @ [failure_page]) []"
    by simp
  have g2: "\<forall>p\<in>set [page_one]. status p = ''SUCCESS'' \<and> exist_next_page p
           \<and> (\<forall>t\<in>set (transactions p). t ''PR_PR'' \<noteq> None)"
    by (simp add: page_one_def flags)
  from get_transactions_failure_returns_partial [OF s2 g2 failed] obtain env2 infos2 where
    r2: "get_transactions scripted ''123456'' ''01-03-2024'' ''02-03-2024'' ''token''
       (start_world [page_one, failure_page]) =
        Some (Inr (concat (map (\<lambda>p. filter (\<lambda>t. t ''PR_PR'' = Some ''r'') (transactions p)) [page_one])), env2)"
    and x2: "map snd (exchanges env2) = map snd (exchanges (start_world [page_one, failure_page]))
                 @ [page_one] @ [failure_page]"
    and l2: "logged env2 = logged (start_world [page_one, failure_page]) @ infos2
                 @ [(ERROR, Failed_to_fetch failure_page)]"
    and i2: "map fst infos2 = replicate (length [page_one]) INFO"
    by (elim exE conjE)
  from i2 obtain m where "infos2 = [(INFO, m)]"
    by (cases infos2) auto
  with r2 x2 l2 have "get_transactions scripted ''123456'' ''01-03-2024'' ''02-03-2024'' ''token''
              (start_world [page_one, failure_page]) = Some (Inr [tx_credit], env2)
         \<and> logged env2 = [(INFO, m), (ERROR, Failed_to_fetch failure_page)]
         \<and> map snd (exchanges env2) = [page_one, failure_page]"
    by (simp add: page_one_def flags)
  then have second: "\<exists>env' info. get_transactions scripted ''123456'' ''01-03-2024'' ''02-03-2024'' ''token''
              (start_world [page_one, failure_page]) = Some (Inr [tx_credit], env')
         \<and> logged env' = [(INFO, info), (ERROR, Failed_to_fetch failure_page)]
         \<and> map snd (exchanges env') = [page_one, failure_page]"
    by (intro exI)
  from first second show ?thesis by (rule conjI)
qed

text \<open>
  Claim C5.  Whenever \<open>get_transactions\<close> returns a list, it is made of the
  transactions with \<open>PR_PR\<close> equal to \<open>r\<close> of the successful pages it received, in
  their order, and of nothing else: every transaction with another flag is left out and
  every transaction with the flag \<open>r\<close> of a successful page is in the list.
\<close>

theorem get_transactions_keeps_confirmed_only:
  assumes "get_transactions get account_number start_date end_date token env = Some (Inr out, env')"
  shows "out = concat (map (\<lambda>p. filter (\<lambda>t. t ''PR_PR'' = Some ''r'') (transactions p))
                   (filter (\<lambda>p. status p = ''SUCCESS'')
                      (map snd (drop (length (exchanges env)) (exchanges env')))))
         \<and> (\<forall>t\<in>set out. t ''PR_PR'' = Some ''r'')"
proof -
  from assms have "pages get account_number start_date end_date token None [] env = Some (Inr out, env')"
    by (simp add: get_transactions_def)
  then obtain n where
    "pages_upto n get account_number start_date end_date token None [] env = Some (Inr out, env')"
    using pages_pages_upto by blast
  then obtain xs where xs: "exchanges env' = exchanges env @ xs"
    and out: "out = [] @ confirmed_of (filter successful (map snd xs))"
    using pages_upto_trace by blast
  from xs have "drop (length (exchanges env)) (exchanges env') = xs" by simp
  with out have eq: "out = concat (map (\<lambda>p. filter (\<lambda>t. t ''PR_PR'' = Some ''r'') (transactions p))
                   (filter (\<lambda>p. status p = ''SUCCESS'')
                      (map snd (drop (length (exchanges env)) (exchanges env')))))"
    by (simp add: confirmed_of_def is_confirmed_def [abs_def] successful_def [abs_def])
  have "\<forall>t\<in>set (confirmed_of ps). t ''PR_PR'' = Some ''r''" for ps
    by (auto simp: confirmed_of_def is_confirmed_def)
  with out have "\<forall>t\<in>set out. t ''PR_PR'' = Some ''r''" by simp
  with eq show ?thesis by (rule conjI)
qed

text \<open>Two pages; the first holds a transaction with the flag \<open>p\<close>, which is dropped.\<close>

theorem get_transactions_keeps_confirmed_only_witness:
  "\<exists>env'. get_transactions scripted ''123456'' ''01-03-2024'' ''02-03-2024'' ''token''
            (start_world [page_one, page_two]) = Some (Inr [tx_credit, tx_debit], env')
       \<and> map snd (exchanges env') = [page_one, page_two]
       \<and> transactions page_one = [tx_credit, tx_pending]
       \<and> tx_pending ''PR_PR'' = Some ''p''
       \<and> (\<forall>t\<in>set [tx_credit, tx_debit]. t ''PR_PR'' = Some ''r'')"
proof -
  let ?req = "page_request ''123456'' ''01-03-2024'' ''02-03-2024'' ''token''"
  have s: "serves scripted ?req None (net (start_world [page_one, page_two])) ([page_one] @ [page_two]) []"
    by simp
  have a1: "\<forall>p\<in>set [page_one]. status p = ''SUCCESS'' \<and> exist_next_page p"
    by (simp add: page_one_def)
  have a2: "status page_two = ''SUCCESS''" and a3: "\<not> exist_next_page page_two"
    by (simp_all add: page_two_def)
  have a4: "\<forall>p\<in>set ([page_one] @ [page_two]). \<forall>t\<in>set (transactions p). t ''PR_PR'' \<noteq> None"
    by (simp add: page_one_def page_two_def flags)
  from pages_until_last [OF s a1 a2 a3 a4, of "[]"] obtain env' where
    p: "pages scripted ''123456'' ''01-03-2024'' ''02-03-2024'' ''token'' None [] (start_world [page_one, page_two])
         = Some (Inr ([] @ confirmed_of ([page_one] @ [page_two])), env')"
    and x: "exchanges env' = exchanges (start_world [page_one, page_two])
         @ zip (requests_for ?req None ([page_one] @ [page_two])) ([page_one] @ [page_two])"
    by (elim exE conjE)
  have c: "confirmed_of ([page_one] @ [page_two]) = [tx_credit, tx_debit]"
    by (simp add: page_one_def page_two_def is_confirmed_examples)
  from p c have g: "get_transactions scripted ''123456'' ''01-03-2024'' ''02-03-2024'' ''token''
            (start_world [page_one, page_two]) = Some (Inr [tx_credit, tx_debit], env')"
    by (simp add: get_transactions_def)
  from x have x': "map snd (exchanges env') = [page_one, page_two]" by simp
  from get_transactions_keeps_confirmed_only [OF g]
  have k: "\<forall>t\<in>set [tx_credit, tx_debit]. t ''PR_PR'' = Some ''r''" by (rule conjunct2)
  have t: "transactions page_one = [tx_credit, tx_pending]" by (simp add: page_one_def)
  from g x' t flags(3) k show ?thesis by (intro exI conjI)
qed

text \<open>
  Claim C6, as amended.  When the transactions are all read without error and no
  \<open>SUM\<close> and no \<open>SUM_E\<close> is negative, the four amounts of every record of the result
  are non-negative.  The numbers are of any type, with any order and any addition for
  which \<open>0\<close> is non-negative and the sum of two non-negative numbers is non-negative:
  this is so for doubles, whose rounding keeps the sign.
\<close>

theorem nonnegative_amounts_give_nonnegative_totals:
  fixes float :: "string \<Rightarrow> error + 'f::{zero,plus,ord}"
  assumes "strptime_date start_date = Inr a" and "end_of_range now end_date = Inr b"
    and "map (read_transaction float) txs = map Inr es"
    and "\<forall>x\<in>set es. 0 \<le> amount x \<and> 0 \<le> amount_uah x"
    and "(0 :: 'f) \<le> 0" and "\<And>x y :: 'f. 0 \<le> x \<Longrightarrow> 0 \<le> y \<Longrightarrow> 0 \<le> x + y"
  shows "\<exists>out. calculate_daily_amounts float now txs start_date end_date = Inr out
           \<and> (\<forall>r\<in>set out. 0 \<le> money_in r \<and> 0 \<le> money_out r
                  \<and> 0 \<le> money_in_UAH r \<and> 0 \<le> money_out_UAH r)"
proof -
  let ?out = "map (daily_record es) (sorted_list_of_set (fst ` set es \<union> {a..b}))"
  have "calculate_daily_amounts float now txs start_date end_date = Inr ?out"
    using assms(1-3) by (rule calculate_daily_amounts_eq)
  moreover have "0 \<le> foldl (+) 0 (map amount (credits es d))"
    and "0 \<le> foldl (+) 0 (map amount (debits es d))"
    and "0 \<le> foldl (+) 0 (map amount_uah (credits es d))"
    and "0 \<le> foldl (+) 0 (map amount_uah (debits es d))" for d
    using assms(4) by (auto intro!: foldl_nonneg assms(5,6) simp: credits_def debits_def)
  then have "\<forall>r\<in>set ?out. 0 \<le> money_in r \<and> 0 \<le> money_out r
                  \<and> 0 \<le> money_in_UAH r \<and> 0 \<le> money_out_UAH r"
    by (simp add: daily_record_def)
  ultimately show ?thesis by blast
qed

text \<open>The two transactions of the test suite.\<close>

theorem nonnegative_amounts_give_nonnegative_totals_witness:
  "\<exists>out. calculate_daily_amounts decimal today example_transactions ''01-03-2024'' (Some ''02-03-2024'')
            = Inr out
      \<and> (\<forall>r\<in>set out. 0 \<le> money_in r \<and> 0 \<le> money_out r
             \<and> 0 \<le> money_in_UAH r \<and> 0 \<le> money_out_UAH r)"
proof -
  have nonneg: "\<forall>x\<in>set [(738946::int, 100::rat, 2700::rat, ''C''), (738947, 200, 5400, ''D'')].
      0 \<le> amount x \<and> 0 \<le> amount_uah x"
    by (simp add: amount_def amount_uah_def)
  have zero: "(0::rat) \<le> 0" by simp
  have plus: "0 \<le> x + y" if "0 \<le> x" "0 \<le> y" for x y :: rat
    using that by simp
  show ?thesis
    by (rule nonnegative_amounts_give_nonnegative_totals
          [OF day_2024_03_01 end_2024_03_02 read_example_transactions nonneg zero plus])
qed

text \<open>
  Claim C6 as stated fails: \<open>SUM\<close> is a signed decimal, and a credit of \<open>-5.00\<close>
  makes \<open>money_in\<close> negative.
\<close>

theorem negative_amount_counterexample:
  "calculate_daily_amounts decimal today [tx_refund] ''01-03-2024'' (Some ''01-03-2024'') =
     Inr [\<lparr>date = ''2024-03-01'', money_in = - 5, money_out = 0,
           money_in_UAH = - 135, money_out_UAH = 0\<rparr>]
   \<and> \<not> (0::rat) \<le> - 5"
  by code_simp

text \<open>
  Claim C7.  Without transactions and with a range whose end is not before its start,
  the result is one zero record for each day of the range, in ascending order: as many
  records as the range has days.
\<close>

theorem empty_transactions_zero_records:
  assumes "strptime_date start_date = Inr a" and "end_of_range now end_date = Inr b"
    and "a \<le> b"
  shows "calculate_daily_amounts float now [] start_date end_date = Inr (map zero_record [a..b])
           \<and> int (length (map zero_record [a..b])) = b - a + 1"
proof -
  have "map (read_transaction float) [] = map Inr []" by simp
  from calculate_daily_amounts_eq [OF assms(1,2) this]
  have "calculate_daily_amounts float now [] start_date end_date = Inr (map zero_record [a..b])"
    by (simp add: sorted_list_of_set_upto daily_record_Nil [abs_def])
  moreover have "int (length (map zero_record [a..b])) = b - a + 1"
    using assms(3) by simp
  ultimately show ?thesis by simp
qed

text \<open>The scenario of the specification: 01-03-2024 to 03-03-2024 gives three zero records.\<close>

theorem empty_transactions_zero_records_witness:
  "strptime_date ''01-03-2024'' = Inr 738946
   \<and> end_of_range today (Some ''03-03-2024'') = Inr 738948
   \<and> calculate_daily_amounts decimal today [] ''01-03-2024'' (Some ''03-03-2024'') =
       Inr [\<lparr>date = ''2024-03-01'', money_in = 0, money_out = 0, money_in_UAH = 0, money_out_UAH = 0\<rparr>,
            \<lparr>date = ''2024-03-02'', money_in = 0, money_out = 0, money_in_UAH = 0, money_out_UAH = 0\<rparr>,
            \<lparr>date = ''2024-03-03'', money_in = 0, money_out = 0, money_in_UAH = 0, money_out_UAH = 0\<rparr>]
   \<and> int (length (map (zero_record :: date \<Rightarrow> rat daily_amount) [738946..738948])) = 3"
proof -
  have a: "strptime_date ''01-03-2024'' = Inr 738946" by code_simp
  have b: "end_of_range today (Some ''03-03-2024'') = Inr 738948" by code_simp
  have le: "(738946::int) \<le> 738948" by simp
  have r: "map (zero_record :: date \<Rightarrow> rat daily_amount) [738946..738948] =
       [\<lparr>date = ''2024-03-01'', money_in = 0, money_out = 0, money_in_UAH = 0, money_out_UAH = 0\<rparr>,
        \<lparr>date = ''2024-03-02'', money_in = 0, money_out = 0, money_in_UAH = 0, money_out_UAH = 0\<rparr>,
        \<lparr>date = ''2024-03-03'', money_in = 0, money_out = 0, money_in_UAH = 0, money_out_UAH = 0\<rparr>]"
    by code_simp
  from empty_transactions_zero_records [OF a b le, where float = decimal] a b show ?thesis
    unfolding r by simp
qed

text \<open>
  Claim C8.  When the transactions are all read without error, the days of the result
  are the days of the transactions together with the days from the start to the end of
  the range, in strictly ascending order.  When the end is before the start, no day is
  filled in: the days of the result are the days of the transactions alone.
\<close>

theorem output_days_are_transaction_days_and_range:
  assumes "strptime_date start_date = Inr a" and "end_of_range now end_date = Inr b"
    and "map (read_transaction float) txs = map Inr es"
  shows "\<exists>out days. calculate_daily_amounts float now txs start_date end_date = Inr out
           \<and> map date out = map strftime days
           \<and> sorted_wrt (<) days
           \<and> set days = fst ` set es \<union> {a..b}
           \<and> (b < a \<longrightarrow> set days = fst ` set es)"
proof -
  let ?days = "sorted_list_of_set (fst ` set es \<union> {a..b})"
  let ?out = "map (daily_record es) ?days"
  have "calculate_daily_amounts float now txs start_date end_date = Inr ?out"
    using assms by (rule calculate_daily_amounts_eq)
  moreover have "map date ?out = map strftime ?days"
    by (simp add: date_daily_record)
  moreover have "sorted_wrt (<) ?days"
    by (simp add: strict_sorted_iff)
  moreover have "set ?days = fst ` set es \<union> {a..b}"
    by simp
  moreover have "b < a \<longrightarrow> set ?days = fst ` set es"
    by simp
  ultimately show ?thesis by blast
qed

text \<open>
  A range from 07-03-2024 back to 03-03-2024 and transactions on the fifth and the
  first of March: two records, and none for the other days between the two ends.
\<close>

theorem output_days_are_transaction_days_and_range_witness:
  "strptime_date ''07-03-2024'' = Inr 738952 \<and> end_of_range today (Some ''03-03-2024'') = Inr 738948
   \<and> (\<exists>out. calculate_daily_amounts decimal today [tx_late, tx_credit] ''07-03-2024'' (Some ''03-03-2024'') = Inr out
          \<and> map date out = [''2024-03-01'', ''2024-03-05''])"
proof -
  have es: "map (read_transaction decimal) [tx_late, tx_credit] =
      map Inr [(738950, 50, 1350, ''D''), (738946, 100, 2700, ''C'')]"
    by (simp add: read_tx_credit read_tx_late)
  have "\<exists>out days. calculate_daily_amounts decimal today [tx_late, tx_credit] ''07-03-2024'' (Some ''03-03-2024'') = Inr out
           \<and> map date out = map strftime days
           \<and> sorted_wrt (<) days
           \<and> set days = fst ` set [(738950::int, 50::rat, 1350::rat, ''D''), (738946, 100, 2700, ''C'')] \<union> {738952..738948}
           \<and> ((738948::int) < 738952 \<longrightarrow> set days = fst ` set [(738950::int, 50::rat, 1350::rat, ''D''), (738946, 100, 2700, ''C'')])"
    by (rule output_days_are_transaction_days_and_range [OF day_2024_03_07 end_2024_03_03 es])
  then obtain out days where
    out: "calculate_daily_amounts decimal today [tx_late, tx_credit] ''07-03-2024'' (Some ''03-03-2024'') = Inr out"
    and dates: "map date out = map strftime days"
    and sorted: "sorted_wrt (<) days"
    and reversed: "(738948::int) < 738952 \<longrightarrow>
           set days = fst ` set [(738950::int, 50::rat, 1350::rat, ''D''), (738946, 100, 2700, ''C'')]"
    by (elim exE conjE)
  from reversed have "set days = set [738946, 738950]" by (simp add: insert_commute)
  moreover from sorted have "sorted days" "distinct days" by (simp_all add: strict_sorted_iff)
  ultimately have "days = [738946, 738950]"
    by (intro sorted_distinct_set_unique) simp_all
  moreover have "map strftime [738946, 738950] = [''2024-03-01'', ''2024-03-05'']" by code_simp
  ultimately have "map date out = [''2024-03-01'', ''2024-03-05'']" using dates by simp
  with out have "\<exists>out. calculate_daily_amounts decimal today [tx_late, tx_credit] ''07-03-2024'' (Some ''03-03-2024'') = Inr out
          \<and> map date out = [''2024-03-01'', ''2024-03-05'']" by (intro exI conjI)
  with day_2024_03_07 end_2024_03_03 show ?thesis by (intro conjI)
qed

text \<open>
  Claim C9.  When \<open>get_transactions\<close> returns the empty list for an account,
  \<open>generate_report\<close> logs the warning and goes on with the accounts that remain, and
  the files are as they were before this account.
\<close>

theorem generate_report_skips_account_without_transactions:
  assumes "get_transactions get account start_date end_date token
             (logging INFO (Processing_account account) env) = Some (Inr [], env1)"
  shows "generate_report get float now (account # accounts) start_date end_date token format env =
           generate_report get float now accounts start_date end_date token format
             (logging WARNING (No_transactions_found account) env1)
         \<and> files (logging WARNING (No_transactions_found account) env1) = files env"
proof -
  from assms have "files env1 = files (logging INFO (Processing_account account) env)"
    by (rule get_transactions_files)
  then have "files (logging WARNING (No_transactions_found account) env1) = files env"
    by simp
  moreover from assms
  have "generate_report get float now (account # accounts) start_date end_date token format env =
           generate_report get float now accounts start_date end_date token format
             (logging WARNING (No_transactions_found account) env1)"
    by simp
  ultimately show ?thesis by simp
qed

text \<open>
  One account without transactions: a warning and no file.  Two accounts, the first
  without transactions: the report of the second is the only file.
\<close>

theorem generate_report_skips_account_without_transactions_witness:
  "(\<exists>env'. generate_report scripted decimal today [''111''] ''01-03-2024'' ''02-03-2024'' ''token'' ''json''
             (start_world [empty_page]) = Some (Inr (), env')
        \<and> last (logged env') = (WARNING, No_transactions_found ''111'')
        \<and> files env' = Map.empty)
   \<and> (\<exists>env'. generate_report scripted decimal today [''111'', ''222''] ''01-03-2024'' ''02-03-2024'' ''token'' ''json''
             (start_world [empty_page, single_page]) = Some (Inr (), env')
        \<and> files env' = [''Unknown_222_report_01-03-2024_02-03-2024.json'' \<mapsto>
             Json_file
               [\<lparr>date = ''2024-03-01'', money_in = 100, money_out = 0, money_in_UAH = 2700, money_out_UAH = 0\<rparr>,
                \<lparr>date = ''2024-03-02'', money_in = 0, money_out = 200, money_in_UAH = 0, money_out_UAH = 5400\<rparr>]])"
proof -
  have ok: "status empty_page = ''SUCCESS''" "\<not> exist_next_page empty_page"
    by (simp_all add: empty_page_def)
  have keys: "\<forall>p\<in>set ([] @ [empty_page]). \<forall>t\<in>set (transactions p). t ''PR_PR'' \<noteq> None"
    by (simp add: empty_page_def)
  have none: "\<forall>p\<in>set ([]::json_data list). status p = ''SUCCESS'' \<and> exist_next_page p"
    by simp
  \<comment> \<open>one account, no transactions\<close>
  let ?w1 = "logging INFO (Processing_account ''111'') (start_world [empty_page])"
  have "serves scripted (page_request ''111'' ''01-03-2024'' ''02-03-2024'' ''token'') None (net ?w1)
          ([] @ [empty_page]) []"
    by simp
  from pages_until_last [OF this none ok keys, of "[]"] obtain env1 where
    "pages scripted ''111'' ''01-03-2024'' ''02-03-2024'' ''token'' None [] ?w1
       = Some (Inr ([] @ confirmed_of ([] @ [empty_page])), env1)"
    and f1: "files env1 = files ?w1"
    by (elim exE conjE)
  then have g1: "get_transactions scripted ''111'' ''01-03-2024'' ''02-03-2024'' ''token'' ?w1
       = Some (Inr [], env1)"
    by (simp add: get_transactions_def empty_page_def)
  let ?e1 = "logging WARNING (No_transactions_found ''111'') env1"
  from generate_report_skips_account_without_transactions [OF g1, of decimal today "[]" "''json''"]
  have "generate_report scripted decimal today [''111''] ''01-03-2024'' ''02-03-2024'' ''token'' ''json''
             (start_world [empty_page]) = Some (Inr (), ?e1)"
    by simp
  moreover have "last (logged ?e1) = (WARNING, No_transactions_found ''111'')" by simp
  moreover have "files ?e1 = Map.empty" using f1 by simp
  ultimately have first: "\<exists>env'. generate_report scripted decimal today [''111''] ''01-03-2024'' ''02-03-2024'' ''token'' ''json''
             (start_world [empty_page]) = Some (Inr (), env')
        \<and> last (logged env') = (WARNING, No_transactions_found ''111'')
        \<and> files env' = Map.empty"
    by (intro exI conjI)
  \<comment> \<open>two accounts: the first has no transactions, the second is reported\<close>
  let ?w2 = "logging INFO (Processing_account ''111'') (start_world [empty_page, single_page])"
  have "serves scripted (page_request ''111'' ''01-03-2024'' ''02-03-2024'' ''token'') None (net ?w2)
          ([] @ [empty_page]) [single_page]"
    by simp
  from pages_until_last [OF this none ok keys, of "[]"] obtain env2 where
    "pages scripted ''111'' ''01-03-2024'' ''02-03-2024'' ''token'' None [] ?w2
       = Some (Inr ([] @ confirmed_of ([] @ [empty_page])), env2)"
    and n2: "net env2 = [single_page]" and f2: "files env2 = files ?w2"
    by (elim exE conjE)
  then have g2: "get_transactions scripted ''111'' ''01-03-2024'' ''02-03-2024'' ''token'' ?w2
       = Some (Inr [], env2)"
    by (simp add: get_transactions_def empty_page_def)
  let ?e2 = "logging WARNING (No_transactions_found ''111'') env2"
  let ?w3 = "logging INFO (Processing_account ''222'') ?e2"
  have ok3: "status single_page = ''SUCCESS''" "\<not> exist_next_page single_page"
    by (simp_all add: single_page_def)
  have keys3: "\<forall>p\<in>set ([] @ [single_page]). \<forall>t\<in>set (transactions p). t ''PR_PR'' \<noteq> None"
    by (simp add: single_page_def example_transactions_def flags)
  have "serves scripted (page_request ''222'' ''01-03-2024'' ''02-03-2024'' ''token'') None (net ?w3)
          ([] @ [single_page]) []"
    using n2 by simp
  from pages_until_last [OF this none ok3 keys3, of "[]"] obtain env3 where
    "pages scripted ''222'' ''01-03-2024'' ''02-03-2024'' ''token'' None [] ?w3
       = Some (Inr ([] @ confirmed_of ([] @ [single_page])), env3)"
    and f3: "files env3 = files ?w3"
    by (elim exE conjE)
  then have g3: "get_transactions scripted ''222'' ''01-03-2024'' ''02-03-2024'' ''token'' ?w3
       = Some (Inr [tx_credit, tx_debit], env3)"
    by (simp add: get_transactions_def single_page_def example_transactions_def
        is_confirmed_examples)
  from f2 f3 have f: "files env3 = Map.empty" by simp
  let ?name = "''Unknown_222_report_01-03-2024_02-03-2024.json''"
  let ?daily = "[\<lparr>date = ''2024-03-01'', money_in = 100, money_out = 0, money_in_UAH = 2700, money_out_UAH = 0\<rparr>,
                \<lparr>date = ''2024-03-02'', money_in = 0, money_out = 200, money_in_UAH = 0, money_out_UAH = 5400\<rparr>]"
  let ?e3 = "logging INFO (Report_generated ''222'' ?name)
               (env3\<lparr>files := (files env3)(?name \<mapsto> Json_file ?daily)\<rparr>)"
  have "generate_report scripted decimal today [''222''] ''01-03-2024'' ''02-03-2024'' ''token'' ''json'' ?e2
          = Some (Inr (), ?e3)"
    using g3 by (simp add: example_daily_amounts lower_json no_account_name Let_def)
  with generate_report_skips_account_without_transactions [OF g2, of decimal today "[''222'']" "''json''"]
  have "generate_report scripted decimal today [''111'', ''222''] ''01-03-2024'' ''02-03-2024'' ''token'' ''json''
             (start_world [empty_page, single_page]) = Some (Inr (), ?e3)"
    by simp
  moreover have "files ?e3 = [?name \<mapsto> Json_file ?daily]"
    using f by simp
  ultimately have second: "\<exists>env'. generate_report scripted decimal today [''111'', ''222''] ''01-03-2024'' ''02-03-2024'' ''token'' ''json''
             (start_world [empty_page, single_page]) = Some (Inr (), env')
        \<and> files env' = [?name \<mapsto> Json_file ?daily]"
    by (intro exI conjI)
  from first second show ?thesis by (rule conjI)
qed

text \<open>
  Claim C10.  \<open>calculate_daily_amounts\<close> does not read \<open>PR_PR\<close>: whatever the
  flag of each transaction is set to, and also when the key is removed, the result is
  the same, so a transaction that is not confirmed is counted as a confirmed one is.
\<close>

theorem confirmation_flag_not_inspected:
  "calculate_daily_amounts float now (map (\<lambda>t. t(''PR_PR'' := flag t)) txs) start_date end_date =
     calculate_daily_amounts float now txs start_date end_date"
proof -
  have read: "read_transaction float (t(''PR_PR'' := v)) = read_transaction float t" for t v
    by (simp add: read_transaction_def getitem_def)
  have "accumulate float (map (\<lambda>t. t(''PR_PR'' := flag t)) txs) dt = accumulate float txs dt"
    for dt
    by (induction txs arbitrary: dt) (simp_all add: read)
  then show ?thesis by (simp add: calculate_daily_amounts_def)
qed

text \<open>
  A credit with the flag \<open>p\<close> is counted in \<open>money_in\<close> of its day, and the result is
  the same when the flags are set to \<open>r\<close>.
\<close>

theorem confirmation_flag_not_inspected_witness:
  "tx_pending ''PR_PR'' = Some ''p''
   \<and> calculate_daily_amounts decimal today [tx_pending, tx_debit] ''01-03-2024'' (Some ''02-03-2024'') =
       Inr [\<lparr>date = ''2024-03-01'', money_in = 15 / 2, money_out = 0, money_in_UAH = 405 / 2, money_out_UAH = 0\<rparr>,
            \<lparr>date = ''2024-03-02'', money_in = 0, money_out = 200, money_in_UAH = 0, money_out_UAH = 5400\<rparr>]
   \<and> calculate_daily_amounts decimal today (map (\<lambda>t. t(''PR_PR'' := Some ''r'')) [tx_pending, tx_debit])
         ''01-03-2024'' (Some ''02-03-2024'') =
       Inr [\<lparr>date = ''2024-03-01'', money_in = 15 / 2, money_out = 0, money_in_UAH = 405 / 2, money_out_UAH = 0\<rparr>,
            \<lparr>date = ''2024-03-02'', money_in = 0, money_out = 200, money_in_UAH = 0, money_out_UAH = 5400\<rparr>]"
proof -
  have e: "calculate_daily_amounts decimal today [tx_pending, tx_debit] ''01-03-2024'' (Some ''02-03-2024'') =
       Inr [\<lparr>date = ''2024-03-01'', money_in = 15 / 2, money_out = 0, money_in_UAH = 405 / 2, money_out_UAH = 0\<rparr>,
            \<lparr>date = ''2024-03-02'', money_in = 0, money_out = 200, money_in_UAH = 0, money_out_UAH = 5400\<rparr>]"
    by code_simp
  have "calculate_daily_amounts decimal today (map (\<lambda>t. t(''PR_PR'' := Some ''r'')) [tx_pending, tx_debit])
         ''01-03-2024'' (Some ''02-03-2024'') =
       calculate_daily_amounts decimal today [tx_pending, tx_debit] ''01-03-2024'' (Some ''02-03-2024'')"
    by (rule confirmation_flag_not_inspected)
  with e flags(3) show ?thesis by (simp only: simp_thms)
qed

end
